theory Spec2Isabelle
  imports Complex_Main "HOL-Library.Sublist" "HOL-Library.AList"
begin

section \<open>Strings as the Python code uses them\<close>

text \<open>
  Strings are lists of characters. The model is the program on a POSIX host
  (\<open>os.sep\<close> is the forward slash, \<open>os.path.normcase\<close> is the identity) and on
  strings of single-byte characters.
\<close>

text \<open>\<open>s.replace('\\', '/')\<close> (utils.py lines 41 and 49, config.py lines 105, 106, 181).\<close>

definition replace_backslash :: "string \<Rightarrow> string" where
  "replace_backslash s = map (\<lambda>c. if c = CHR 0x5C then CHR ''/'' else c) s"

text \<open>\<open>s.split(sep)\<close> for a separator of one character: the result is never empty.\<close>

fun split_sep :: "char \<Rightarrow> string \<Rightarrow> string list" where
  "split_sep sep [] = [[]]"
| "split_sep sep (c # cs) =
     (if c = sep then [] # split_sep sep cs
      else (case split_sep sep cs of
              [] \<Rightarrow> [[c]]
            | p # ps \<Rightarrow> (c # p) # ps))"

text \<open>\<open>sep.join(parts)\<close>.\<close>

fun join_sep :: "string \<Rightarrow> string list \<Rightarrow> string" where
  "join_sep sep [] = []"
| "join_sep sep [p] = p"
| "join_sep sep (p # q # ps) = p @ sep @ join_sep sep (q # ps)"

text \<open>\<open>s.lower()\<close> on single-byte characters: only the letters A to Z change.\<close>

definition lower_char :: "char \<Rightarrow> char" where
  "lower_char c =
     (let n = (of_char c :: nat)
      in if 65 \<le> n \<and> n \<le> 90 then char_of (n + 32) else c)"

definition lower :: "string \<Rightarrow> string" where
  "lower s = map lower_char s"

section \<open>\<open>fnmatch.fnmatch\<close> of the Python standard library\<close>

text \<open>
  \<open>fnmatch.translate\<close> turns a shell pattern into a regular expression that is
  matched against the whole name: \<open>*\<close> matches any run of characters (the slash
  included), \<open>?\<close> one character, \<open>[seq]\<close> and \<open>[!seq]\<close> one character in or out of
  a set, every other character itself. The tokens below are the pieces of that
  regular expression.
\<close>

datatype token = STAR | ANY | LIT char | SET bool "string list"

text \<open>
  The scan for the closing bracket: \<open>s\<close> is the pattern after the opening
  bracket, the result the index of the closing one (\<open>j - i\<close> of the source).
\<close>

definition bracket_end :: "string \<Rightarrow> nat option" where
  "bracket_end s =
     (let j0 = (if 0 < length s \<and> s ! 0 = CHR ''!'' then 1 else 0);
          j1 = (if j0 < length s \<and> s ! j0 = CHR '']'' then j0 + 1 else j0);
          rest = drop j1 s
      in if CHR '']'' \<in> set rest
         then Some (j1 + length (takeWhile (\<lambda>c. c \<noteq> CHR '']'') rest))
         else None)"

text \<open>
  The chunks of a bracket expression that holds a hyphen: the text is cut at each
  hyphen found at least \<open>k\<close> characters into the current chunk (\<open>k\<close> is 1, or 2
  after a leading \<open>!\<close>, for the first chunk and 2 afterwards, the source's
  \<open>k = k+3\<close> after \<open>i = k+1\<close>).
\<close>

fun range_chunks :: "nat \<Rightarrow> string \<Rightarrow> string \<Rightarrow> string list" where
  "range_chunks k acc [] = [rev acc]"
| "range_chunks k acc (c # cs) =
     (if k = 0 \<and> c = CHR ''-'' then rev acc # range_chunks 2 [] cs
      else range_chunks (k - 1) (c # acc) cs)"

text \<open>An empty last chunk is dropped and its hyphen goes to the chunk before it.\<close>

definition close_chunks :: "string list \<Rightarrow> string list" where
  "close_chunks chunks =
     (if chunks \<noteq> [] \<and> last chunks = [] \<and> butlast chunks \<noteq> []
      then butlast (butlast chunks) @ [last (butlast chunks) @ ''-'']
      else chunks)"

text \<open>
  The loop that removes empty ranges, from the last chunk down to the second: a
  range whose lower end is above its upper end disappears with both ends.
\<close>

fun remove_empty_ranges :: "string list \<Rightarrow> string list" where
  "remove_empty_ranges [] = []"
| "remove_empty_ranges [a] = [a]"
| "remove_empty_ranges (a # b # bs) =
     (case remove_empty_ranges (b # bs) of
        [] \<Rightarrow> [a]
      | b' # bs' \<Rightarrow>
          if a \<noteq> [] \<and> b' \<noteq> [] \<and> (of_char (last a) :: nat) > of_char (hd b')
          then (butlast a @ tl b') # bs'
          else a # b' # bs')"

definition set_token :: "string \<Rightarrow> token" where
  "set_token stuff =
     (let chunks =
            (if CHR ''-'' \<notin> set stuff then [stuff]
             else remove_empty_ranges (close_chunks
                    (range_chunks (if stuff \<noteq> [] \<and> hd stuff = CHR ''!'' then 2 else 1) [] stuff)))
      in case chunks of
           [] \<Rightarrow> SET False []
         | first # others \<Rightarrow>
             if first \<noteq> [] \<and> hd first = CHR ''!'' then SET True (tl first # others)
             else SET False chunks)"

function translate :: "string \<Rightarrow> token list" where
  "translate [] = []"
| "translate (c # cs) =
     (if c = CHR ''*'' then
        (let res = translate cs in if res \<noteq> [] \<and> hd res = STAR then res else STAR # res)
      else if c = CHR ''?'' then ANY # translate cs
      else if c = CHR ''['' then
        (case bracket_end cs of
           None \<Rightarrow> LIT CHR ''['' # translate cs
         | Some j \<Rightarrow> set_token (take j cs) # translate (drop (Suc j) cs))
      else LIT c # translate cs)"
  by pat_completeness auto
termination
  by (relation "measure length") auto

text \<open>
  The characters a set accepts: the chunks are joined by hyphens, so the last
  character of a chunk and the first of the next are the two ends of a range, and
  every other character stands for itself.
\<close>

fun set_accepts :: "string list \<Rightarrow> char \<Rightarrow> bool" where
  "set_accepts [] c = False"
| "set_accepts [s] c = (c \<in> set s)"
| "set_accepts (s # t # ts) c =
     (c \<in> set (butlast s)
      \<or> (s \<noteq> [] \<and> t \<noteq> [] \<and> (of_char (last s) :: nat) \<le> of_char c
           \<and> (of_char c :: nat) \<le> of_char (hd t))
      \<or> set_accepts (tl t # ts) c)"

fun token_accepts :: "token \<Rightarrow> char \<Rightarrow> bool" where
  "token_accepts STAR c = True"
| "token_accepts ANY c = True"
| "token_accepts (LIT d) c = (c = d)"
| "token_accepts (SET negated chunks) c = (set_accepts chunks c \<noteq> negated)"

fun glob_match :: "token list \<Rightarrow> string \<Rightarrow> bool" where
  "glob_match [] s = (s = [])"
| "glob_match (STAR # ts) [] = glob_match ts []"
| "glob_match (STAR # ts) (c # s) = (glob_match ts (c # s) \<or> glob_match (STAR # ts) s)"
| "glob_match (t # ts) [] = False"
| "glob_match (t # ts) (c # s) = (token_accepts t c \<and> glob_match ts s)"

definition fnmatch :: "string \<Rightarrow> string \<Rightarrow> bool" where
  "fnmatch name pat = glob_match (translate pat) name"

section \<open>The pattern matcher (utils.py)\<close>

text \<open>
  The body of the loop of \<open>matches_any_pattern\<close> (lines 48 to 77) for one pattern:
  each \<open>return True\<close> of the source is one disjunct, in the source's order.
\<close>

definition pattern_matches :: "string \<Rightarrow> string \<Rightarrow> bool" where
  "pattern_matches path pattern0 =
     (let normalized_path = replace_backslash path;
          no_dot_path = (if prefix ''./'' normalized_path then drop 2 normalized_path
                         else normalized_path);
          pattern = replace_backslash pattern0;
          path_parts = split_sep CHR ''/'' normalized_path
      in (suffix ''/'' pattern \<and>
            (let dir_pattern = butlast pattern
             in prefix (dir_pattern @ ''/'') normalized_path
                \<or> normalized_path = dir_pattern
                \<or> prefix (dir_pattern @ ''/'') no_dot_path
                \<or> no_dot_path = dir_pattern))
         \<or> (prefix ''.'' pattern \<and>
            (let no_dot_pattern = tl pattern
             in fnmatch normalized_path no_dot_pattern
                \<or> fnmatch normalized_path (''*/'' @ no_dot_pattern)
                \<or> fnmatch normalized_path (no_dot_pattern @ ''/*'')))
         \<or> fnmatch normalized_path pattern
         \<or> list_ex (\<lambda>i. fnmatch (join_sep ''/'' (drop i path_parts)) pattern)
              [0..<length path_parts])"

definition matches_any_pattern :: "string \<Rightarrow> string set \<Rightarrow> bool" where
  "matches_any_pattern path patterns = (\<exists>pattern\<in>patterns. pattern_matches path pattern)"

section \<open>The tree walker (utils.py)\<close>

text \<open>
  The repository on disk: a directory is the list of its entries in the order
  \<open>os.walk\<close> lists them. A file has its name, its size in bytes (\<open>st_size\<close>),
  whether \<open>is_binary_file\<close> finds it binary (the UTF-8 probe of its first 1024
  characters fails), and the text \<open>get_file_content\<close> reads from it.
  Every file of the model can be listed and opened: the \<open>OSError\<close> that
  \<open>file_path.stat()\<close> or \<open>open\<close> raises on a dangling link or an unreadable file
  (utils.py lines 124, 22 and 146 have no handler for it) is outside the model, and
  no property below says that a call on a real directory returns.
\<close>

datatype fsnode = File string nat bool string | Dir string "fsnode list"

text \<open>\<open>os.path.join(a, b)\<close> of posixpath, for two arguments.\<close>

definition path_join :: "string \<Rightarrow> string \<Rightarrow> string" where
  "path_join a b =
     (if prefix ''/'' b then b
      else if a = [] \<or> suffix ''/'' a then a @ b
      else a @ ''/'' @ b)"

text \<open>
  The path of an entry relative to the root, as \<open>os.path.relpath(dirpath, root_dir)\<close>
  and \<open>file_path.relative_to(root_dir)\<close> give it: the root itself is \<open>.\<close>, and no
  other relative path starts with it.
\<close>

definition child_rel :: "string \<Rightarrow> string \<Rightarrow> string" where
  "child_rel rel_dirpath entry = (if rel_dirpath = ''.'' then entry else rel_dirpath @ ''/'' @ entry)"

text \<open>Line 93.\<close>

definition current_depth :: "string \<Rightarrow> nat" where
  "current_depth rel_dirpath =
     (if rel_dirpath = ''.'' then 0 else length (split_sep CHR ''/'' rel_dirpath))"

text \<open>Lines 104 to 106: the path a subdirectory is tested under.\<close>

definition rel_subdir :: "string \<Rightarrow> string \<Rightarrow> string" where
  "rel_subdir rel_dirpath dirname =
     (let joined = path_join rel_dirpath dirname in if joined = ''.'' then dirname else joined)"

text \<open>Lines 115 to 130, for one entry of the directory.\<close>

definition select_file ::
  "string set \<Rightarrow> string set \<Rightarrow> int \<Rightarrow> string \<Rightarrow> fsnode \<Rightarrow> (fsnode \<times> string) list" where
  "select_file inc exc max_size_kb rel_dirpath entry =
     (case entry of
        Dir dirname children \<Rightarrow> []
      | File filename st_size is_binary content \<Rightarrow>
          (let relative_path = child_rel rel_dirpath filename
           in if matches_any_pattern relative_path exc then []
              else if int st_size > max_size_kb * 1024 then []
              else if matches_any_pattern relative_path inc \<and> \<not> is_binary
                   then [(entry, relative_path)]
              else []))"

text \<open>
  \<open>os.walk\<close>, top down: the files of a directory are handled before its
  subdirectories are entered; a subdirectory is entered unless the depth limit
  cleared \<open>dirnames\<close> (line 95) or the loop of lines 102 to 112 removed it.
\<close>

fun walk :: "string set \<Rightarrow> string set \<Rightarrow> int \<Rightarrow> int option \<Rightarrow> string \<Rightarrow> fsnode list
               \<Rightarrow> (fsnode \<times> string) list"
  and walk_subdirs :: "string set \<Rightarrow> string set \<Rightarrow> int \<Rightarrow> int option \<Rightarrow> string \<Rightarrow> fsnode list
               \<Rightarrow> (fsnode \<times> string) list"
where
  "walk inc exc max_size_kb max_depth rel_dirpath entries =
     concat (map (select_file inc exc max_size_kb rel_dirpath) entries)
     @ (if (case max_depth of None \<Rightarrow> False
                            | Some d \<Rightarrow> int (current_depth rel_dirpath) \<ge> d)
        then []
        else walk_subdirs inc exc max_size_kb max_depth rel_dirpath entries)"
| "walk_subdirs inc exc max_size_kb max_depth rel_dirpath [] = []"
| "walk_subdirs inc exc max_size_kb max_depth rel_dirpath (File filename st_size is_binary content # entries) =
     walk_subdirs inc exc max_size_kb max_depth rel_dirpath entries"
| "walk_subdirs inc exc max_size_kb max_depth rel_dirpath (Dir dirname children # entries) =
     (if matches_any_pattern (rel_subdir rel_dirpath dirname) exc then []
      else walk inc exc max_size_kb max_depth (child_rel rel_dirpath dirname) children)
     @ walk_subdirs inc exc max_size_kb max_depth rel_dirpath entries"

definition find_files ::
  "fsnode list \<Rightarrow> string set \<Rightarrow> string set \<Rightarrow> int \<Rightarrow> int option \<Rightarrow> (fsnode \<times> string) list" where
  "find_files root_dir inc exc max_size_kb max_depth =
     walk inc exc max_size_kb max_depth ''.'' root_dir"

text \<open>\<open>get_file_content\<close> of a file the walker returned.\<close>

fun get_file_content :: "fsnode \<Rightarrow> string" where
  "get_file_content (File filename st_size is_binary content) = content"
| "get_file_content (Dir dirname children) = []"

section \<open>The configuration (config.py)\<close>

record language_config =
  lang_name :: string
  extensions :: "string set"
  include_patterns :: "string set"
  exclude_patterns :: "string set"
  config_files :: "string set"

text \<open>
  The dataclass \<open>Config\<close>; its field \<open>languages\<close> is \<open>config_languages\<close> here (the
  result of an ingestion has a field \<open>languages\<close> too).
\<close>

record config =
  common_include_patterns :: "string set"
  common_exclude_patterns :: "string set"
  config_languages :: "string \<rightharpoonup> language_config"
  max_file_size_kb :: int
  max_depth :: "int option"
  remove_comments :: bool

text \<open>\<open>s.split(sep)\<close> for a separator of several characters (\<open>acc\<close> is the piece read so far).\<close>

function split_str :: "string \<Rightarrow> string \<Rightarrow> string \<Rightarrow> string list" where
  "split_str sep acc s =
     (if sep \<noteq> [] \<and> prefix sep s then rev acc # split_str sep [] (drop (length sep) s)
      else (case s of
              [] \<Rightarrow> [rev acc]
            | c # cs \<Rightarrow> split_str sep (c # acc) cs))"
  by pat_completeness auto
termination
  by (relation "measure (\<lambda>(sep, acc, s). length s)") (auto simp: prefix_def)

text \<open>Lines 109 to 122 of \<open>__post_init__\<close>, for one pattern of the set.\<close>

definition normalize_exclude :: "string \<Rightarrow> string" where
  "normalize_exclude pattern =
     (if suffix ''/'' pattern then pattern
      else if suffix ''/**'' pattern then take (length pattern - 3) pattern @ ''/''
      else if sublist ''**/'' pattern \<and> \<not> suffix ''*'' pattern then
        (if \<not> (\<exists>c\<in>set ''.*?[]''. c \<in> set (split_str ''**/'' [] pattern ! 1))
         then pattern @ ''/''
         else pattern)
      else pattern)"

definition python_config :: language_config where
  "python_config =
     \<lparr>lang_name = ''Python'',
      extensions = {''.py''},
      include_patterns = {''pyproject.toml'', ''setup.cfg'', ''pytest.ini'', ''tox.ini'',
                          ''requirements*.txt''},
      exclude_patterns = {},
      config_files = {''pyproject.toml'', ''setup.py'', ''setup.cfg'', ''requirements.txt''}\<rparr>"

definition csharp_config :: language_config where
  "csharp_config =
     \<lparr>lang_name = ''C#'',
      extensions = {''.cs'', ''.csproj'', ''.sln''},
      include_patterns = {''*.config'', ''App.config'', ''Web.config'', ''packages.config'',
                          ''*.props'', ''*.targets''},
      exclude_patterns = {},
      config_files = {''*.csproj'', ''*.sln'', ''packages.config'', ''NuGet.config''}\<rparr>"

definition react_config :: language_config where
  "react_config =
     \<lparr>lang_name = ''React'',
      extensions = {''.jsx'', ''.tsx'', ''.js'', ''.ts''},
      include_patterns = {''package.json'', ''tsconfig.json'', ''.babelrc'', ''.eslintrc*'',
                          ''webpack.config.js'', ''next.config.js'', ''vite.config.js''},
      exclude_patterns = {''*.d.ts''},
      config_files = {''package.json'', ''tsconfig.json'', ''.babelrc'', ''webpack.config.js''}\<rparr>"

definition yaml_config :: language_config where
  "yaml_config =
     \<lparr>lang_name = ''YAML'',
      extensions = {''.yml'', ''.yaml''},
      include_patterns = {''docker-compose*.yml'', ''docker-compose*.yaml'',
                          ''.github/workflows/*.yml'', ''.github/workflows/*.yaml'',
                          ''kubernetes/*.yml'', ''kubernetes/*.yaml'',
                          ''k8s/*.yml'', ''k8s/*.yaml'',
                          ''helm/**/*.yml'', ''helm/**/*.yaml'',
                          ''.gitlab-ci.yml'', ''cloudbuild.yaml'',
                          ''appveyor.yml'', ''circle.yml'', ''travis.yml'', ''.travis.yml'',
                          ''**/Chart.yaml'', ''**/values.yaml'',
                          ''ansible/*.yml'', ''ansible/*.yaml'',
                          ''*.yaml'', ''*.yml''},
      exclude_patterns = {},
      config_files = {''docker-compose.yml'', ''docker-compose.yaml'',
                      ''.github/workflows/*.yml''}\<rparr>"

definition post_init :: "config \<Rightarrow> config" where
  "post_init self =
     self\<lparr>common_include_patterns := replace_backslash ` common_include_patterns self,
          common_exclude_patterns :=
            normalize_exclude ` (replace_backslash ` common_exclude_patterns self),
          config_languages :=
            (config_languages self)(''python'' \<mapsto> python_config, ''csharp'' \<mapsto> csharp_config,
                                    ''react'' \<mapsto> react_config, ''yaml'' \<mapsto> yaml_config)\<rparr>"

text \<open>The default values of the fields of \<open>Config\<close> (lines 16 to 101).\<close>

definition config_defaults :: config where
  "config_defaults =
     \<lparr>common_include_patterns =
        {''Dockerfile'', ''docker-compose.yml'', ''.gitignore'', ''README.md'', ''LICENSE'',
         ''.env.example'', ''Makefile'', ''requirements.txt'', ''package.json'', ''setup.py'',
         ''*.config''},
      common_exclude_patterns =
        {''.git/'', ''__pycache__/'', ''*.pyc'', ''*.pyd'', ''*.pyo'',
         ''*.dll'', ''*.exe'', ''*.obj'', ''*.o'', ''*.a'', ''*.lib'', ''*.so'', ''*.dylib'',
         ''*.ncb'', ''*.sdf'', ''*.suo'', ''*.pdb'', ''*.ipdb'', ''*.pgc'', ''*.pgd'', ''*.rsp'',
         ''*.sbr'', ''*.tlb'', ''*.tli'', ''*.tlh'', ''*.tmp'', ''*.tmp_proj'', ''*.log'',
         ''*.vspscc'', ''*.vssscc'', ''.builds'', ''*.pidb'', ''*.svclog'', ''*.scc'',
         ''*.psess'', ''*.vsp'', ''*.vspx'',
         ''**/bin/'', ''**/obj/'', ''**/build/'', ''**/dist/'',
         ''**/node_modules/'',
         ''**/.venv/'', ''**/venv/'', ''**/env/'', ''**/.env/'', ''**/ENV/'',
         ''**/.DS_Store'', ''**/Lib/site-packages/''},
      config_languages = Map.empty,
      max_file_size_kb = 1024,
      max_depth = None,
      remove_comments = True\<rparr>"

text \<open>\<open>DEFAULT_CONFIG = Config()\<close>.\<close>

definition DEFAULT_CONFIG :: config where
  "DEFAULT_CONFIG = post_init config_defaults"

text \<open>
  \<open>Config.add_exclude_pattern\<close>; \<open>isdir\<close> is \<open>os.path.isdir\<close> on the file system of
  the moment.
\<close>

definition add_exclude_pattern :: "(string \<Rightarrow> bool) \<Rightarrow> string \<Rightarrow> config \<Rightarrow> config" where
  "add_exclude_pattern isdir pattern0 self =
     (let pattern1 = replace_backslash pattern0;
          pattern = (if isdir pattern1 \<and> \<not> suffix ''/'' pattern1 then pattern1 @ ''/''
                     else pattern1);
          added = insert pattern (common_exclude_patterns self);
          undotted = (if prefix ''.'' pattern then insert (tl pattern) added else added);
          widened =
            (if \<not> suffix ''/'' pattern \<and> \<not> suffix ''*'' pattern then
               (if isdir pattern then insert (pattern @ ''**/*'') undotted
                else insert (pattern @ ''*'') undotted)
             else undotted)
      in self\<lparr>common_exclude_patterns := widened\<rparr>)"

text \<open>A working directory in which no pattern names a directory.\<close>

definition no_directory :: "string \<Rightarrow> bool" where
  "no_directory path = False"

section \<open>The tree of the result (core.py, \<open>_build_tree_structure\<close>)\<close>

text \<open>
  A nested dictionary in insertion order; a file maps to \<open>None\<close>. Stepping into
  a name that is already a file makes \<open>current\<close> the value \<open>None\<close>, and the next
  access to it raises \<open>TypeError\<close>.
\<close>

datatype tree_node = NoneLeaf | Directory "(string \<times> tree_node) list"

datatype error = TypeError

fun insert_path ::
  "string list \<Rightarrow> (string \<times> tree_node) list \<Rightarrow> error + (string \<times> tree_node) list" where
  "insert_path [] current = Inr current"
| "insert_path [part] current = Inr (AList.update part NoneLeaf current)"
| "insert_path (part # rest) current =
     (case map_of current part of
        None \<Rightarrow>
          (case insert_path rest [] of
             Inl e \<Rightarrow> Inl e
           | Inr sub \<Rightarrow> Inr (AList.update part (Directory sub) current))
      | Some NoneLeaf \<Rightarrow> Inl TypeError
      | Some (Directory below) \<Rightarrow>
          (case insert_path rest below of
             Inl e \<Rightarrow> Inl e
           | Inr sub \<Rightarrow> Inr (AList.update part (Directory sub) current)))"

fun insert_paths ::
  "string list \<Rightarrow> (string \<times> tree_node) list \<Rightarrow> error + (string \<times> tree_node) list" where
  "insert_paths [] tree = Inr tree"
| "insert_paths (file_path # later) tree =
     (case insert_path (split_sep CHR ''/'' file_path) tree of
        Inl e \<Rightarrow> Inl e
      | Inr tree' \<Rightarrow> insert_paths later tree')"

definition build_tree_structure ::
  "(string \<times> string) list \<Rightarrow> error + (string \<times> tree_node) list" where
  "build_tree_structure file_dict = insert_paths (map fst file_dict) []"

text \<open>
  The shape the tree of the three paths \<open>a.py\<close>, \<open>d/b.py\<close> and \<open>d/e/c.js\<close> has:
  the keys of each level and the leaf marker under each file name.
\<close>

definition round_trip_shape :: "(string \<times> tree_node) list \<Rightarrow> bool" where
  "round_trip_shape tree =
     (set (map fst tree) = {''a.py'', ''d''}
      \<and> map_of tree ''a.py'' = Some NoneLeaf
      \<and> (case map_of tree ''d'' of
            Some (Directory d) \<Rightarrow>
              set (map fst d) = {''b.py'', ''e''}
              \<and> map_of d ''b.py'' = Some NoneLeaf
              \<and> (case map_of d ''e'' of
                    Some (Directory e) \<Rightarrow>
                      set (map fst e) = {''c.js''} \<and> map_of e ''c.js'' = Some NoneLeaf
                  | _ \<Rightarrow> False)
          | _ \<Rightarrow> False))"

section \<open>The orchestrator (core.py)\<close>

text \<open>
  A language handler, as the orchestrator uses one. The handler classes other than
  the YAML one, and the base class that gives every handler its pattern sets, are
  not part of the sources at hand, so a handler is any value of this record:
  \<open>detect_language\<close> reads the repository, the pattern sets are what
  \<open>get_include_patterns()\<close> and \<open>get_exclude_patterns()\<close> return, the last two
  fields read the collected files. \<open>'m\<close> is the type of the metadata of a project.
\<close>

record 'm handler =
  detect_language :: "fsnode list \<Rightarrow> bool"
  get_include_patterns :: "string set"
  get_exclude_patterns :: "string set"
  analyze_dependencies :: "(string \<times> string) list \<Rightarrow> (string \<times> string list) list"
  extract_project_metadata :: "(string \<times> string) list \<Rightarrow> 'm"

text \<open>The entries of the dictionary \<open>metadata\<close>.\<close>

datatype 'm meta_value =
    Timestamp real
  | LanguageList "string list"
  | FileCount nat
  | LanguageMetadata "(string \<times> 'm) list"

text \<open>
  What the orchestrator calls and the sources at hand do not define: the registry
  \<open>LANGUAGE_HANDLERS\<close> (language key and handler class, in the order of the
  dictionary), \<open>estimate_repository_tokens\<close> of \<open>token_utils\<close> on the four entries of
  \<open>repo_data\<close>, and the function analysis of \<open>_analyze_functions\<close>, which merges the
  results of two functions of \<open>function_analyzer\<close>. \<open>remove_comments_from_content\<close>
  stands for the regular-expression substitutions of utils.py lines 154 to 193; no
  property below depends on what they do to the text of a file.
\<close>

record ('m, 't, 'f) collaborators =
  LANGUAGE_HANDLERS :: "(string \<times> (language_config option \<Rightarrow> 'm handler)) list"
  remove_comments_from_content :: "string \<Rightarrow> string \<Rightarrow> string"
  estimate_repository_tokens ::
    "(string \<times> string) list \<Rightarrow> (string \<times> 'm meta_value) list \<Rightarrow> (string \<times> tree_node) list
       \<Rightarrow> (string \<times> string list) list \<Rightarrow> (string \<times> 't) list"
  analyze_functions :: "(string \<times> string) list \<Rightarrow> (string \<times> 'f) list"

text \<open>
  \<open>_detect_languages\<close>: the languages detected, in the order of the registry, and
  the dictionary \<open>self.handlers\<close> after the call.
\<close>

fun detect_languages ::
  "(string \<times> (language_config option \<Rightarrow> 'm handler)) list \<Rightarrow> config \<Rightarrow> fsnode list
     \<Rightarrow> (string \<rightharpoonup> 'm handler) \<Rightarrow> string list \<times> (string \<rightharpoonup> 'm handler)" where
  "detect_languages [] cfg repo handlers = ([], handlers)"
| "detect_languages ((lang, handler_class) # registry) cfg repo handlers =
     (let handler = handler_class (config_languages cfg lang)
      in if detect_language handler repo
         then (let (detected, handlers') =
                     detect_languages registry cfg repo (handlers(lang \<mapsto> handler))
               in (lang # detected, handlers'))
         else detect_languages registry cfg repo handlers)"

text \<open>Lines 74 to 81 of \<open>_collect_files\<close>.\<close>

definition collect_include_patterns ::
  "config \<Rightarrow> (string \<rightharpoonup> 'm handler) \<Rightarrow> string list \<Rightarrow> string set" where
  "collect_include_patterns cfg handlers langs =
     fold (\<lambda>lang acc. case handlers lang of None \<Rightarrow> acc
                                          | Some h \<Rightarrow> acc \<union> get_include_patterns h)
       langs (common_include_patterns cfg)"

definition collect_exclude_patterns ::
  "config \<Rightarrow> (string \<rightharpoonup> 'm handler) \<Rightarrow> string list \<Rightarrow> string set" where
  "collect_exclude_patterns cfg handlers langs =
     fold (\<lambda>lang acc. case handlers lang of None \<Rightarrow> acc
                                          | Some h \<Rightarrow> acc \<union> get_exclude_patterns h)
       langs (common_exclude_patterns cfg)"

text \<open>Lines 101 to 121: the value of \<open>should_include\<close> for one file found.\<close>

definition should_include ::
  "config \<Rightarrow> (string \<rightharpoonup> 'm handler) \<Rightarrow> string list \<Rightarrow> string \<Rightarrow> bool" where
  "should_include cfg handlers langs relative_path =
     (if langs = [] then True
      else list_ex (\<lambda>lang. case handlers lang of
                             None \<Rightarrow> False
                           | Some h \<Rightarrow> (\<exists>pattern\<in>get_include_patterns h.
                                         matches_any_pattern relative_path {pattern}))
             langs
           \<or> relative_path \<in> {p \<in> common_include_patterns cfg.
                                 CHR ''*'' \<notin> set p \<and> CHR ''?'' \<notin> set p})"

text \<open>Lines 127 to 132: the text stored for a file.\<close>

definition stored_content ::
  "('m, 't, 'f) collaborators \<Rightarrow> config \<Rightarrow> fsnode \<Rightarrow> string \<Rightarrow> string" where
  "stored_content env cfg file_path relative_path =
     (if remove_comments cfg
      then remove_comments_from_content env relative_path (get_file_content file_path)
      else get_file_content file_path)"

definition collect_files ::
  "('m, 't, 'f) collaborators \<Rightarrow> config \<Rightarrow> (string \<rightharpoonup> 'm handler) \<Rightarrow> fsnode list \<Rightarrow> string list
     \<Rightarrow> (string \<times> string) list" where
  "collect_files env cfg handlers repo langs =
     (let file_paths = find_files repo (collect_include_patterns cfg handlers langs)
                         (collect_exclude_patterns cfg handlers langs)
                         (max_file_size_kb cfg) (max_depth cfg)
      in fold (\<lambda>(file_path, relative_path) collected.
                 if should_include cfg handlers langs relative_path
                 then AList.update relative_path
                        (stored_content env cfg file_path relative_path) collected
                 else collected)
           file_paths [])"

text \<open>\<open>_analyze_dependencies\<close>: \<open>dict.update\<close> with the result of each handler in turn.\<close>

definition ingestor_analyze_dependencies ::
  "(string \<rightharpoonup> 'm handler) \<Rightarrow> (string \<times> string) list \<Rightarrow> string list
     \<Rightarrow> (string \<times> string list) list" where
  "ingestor_analyze_dependencies handlers collected langs =
     fold (\<lambda>lang all_dependencies.
             case handlers lang of
               None \<Rightarrow> all_dependencies
             | Some h \<Rightarrow> fold (\<lambda>(k, v). AList.update k v) (analyze_dependencies h collected)
                          all_dependencies)
       langs []"

text \<open>\<open>_extract_metadata\<close>; \<open>now\<close> is the value of \<open>time.time()\<close>.\<close>

definition extract_metadata ::
  "(string \<rightharpoonup> 'm handler) \<Rightarrow> (string \<times> string) list \<Rightarrow> string list \<Rightarrow> real
     \<Rightarrow> (string \<times> 'm meta_value) list" where
  "extract_metadata handlers collected langs now =
     [(''timestamp'', Timestamp now),
      (''languages'', LanguageList langs),
      (''file_count'', FileCount (length collected)),
      (''language_metadata'',
         LanguageMetadata
           (fold (\<lambda>lang acc. case handlers lang of
                                None \<Rightarrow> acc
                              | Some h \<Rightarrow> AList.update lang (extract_project_metadata h collected) acc)
              langs []))]"

text \<open>\<open>os.path.basename\<close> and the second component of \<open>os.path.splitext\<close> (posixpath).\<close>

definition basename :: "string \<Rightarrow> string" where
  "basename p = last (split_sep CHR ''/'' p)"

definition splitext_ext :: "string \<Rightarrow> string" where
  "splitext_ext p =
     (let b = basename p
      in if CHR ''.'' \<in> set b then
           (let dot_index = length b - 1 - length (takeWhile (\<lambda>c. c \<noteq> CHR ''.'') (rev b))
            in if \<exists>c\<in>set (take dot_index b). c \<noteq> CHR ''.'' then drop dot_index b else [])
         else [])"

text \<open>
  Lines 302 to 321: \<open>languages\<close>. A filter that is \<open>None\<close> or empty is no filter.
\<close>

definition filter_given :: "string list option \<Rightarrow> bool" where
  "filter_given languages_filter =
     (case languages_filter of None \<Rightarrow> False | Some wanted \<Rightarrow> wanted \<noteq> [])"

definition filter_languages :: "string list option \<Rightarrow> string list \<Rightarrow> string list" where
  "filter_languages languages_filter all_languages =
     (if filter_given languages_filter \<and> all_languages \<noteq> []
      then filter (\<lambda>lang. lower lang \<in> set (map lower (the languages_filter))) all_languages
      else all_languages)"

text \<open>
  Lines 308 to 319: the description handed to the progress tracker, when the
  ingestor has one, once the filter is applied.
\<close>

definition filter_progress_description ::
  "bool \<Rightarrow> string list option \<Rightarrow> string list \<Rightarrow> string option" where
  "filter_progress_description has_progress languages_filter all_languages =
     (if filter_given languages_filter \<and> all_languages \<noteq> [] then
        (let filtered_languages = filter_languages languages_filter all_languages
         in if has_progress \<and> filtered_languages \<noteq> []
            then Some (''Analyzing '' @ join_sep '', '' filtered_languages @ '' files...'')
            else if has_progress
            then Some ''No matching languages found with specified filter!''
            else None)
      else None)"

text \<open>Lines 327 to 360: the second pass, over the files collected.\<close>

definition allowed_extensions :: "config \<Rightarrow> string list \<Rightarrow> string set" where
  "allowed_extensions cfg langs =
     fold (\<lambda>lang acc. case config_languages cfg lang of None \<Rightarrow> acc
                                                       | Some lc \<Rightarrow> acc \<union> extensions lc)
       langs {}"

definition allowed_config_files :: "config \<Rightarrow> string list \<Rightarrow> string set" where
  "allowed_config_files cfg langs =
     fold (\<lambda>lang acc. case config_languages cfg lang of None \<Rightarrow> acc
                                                       | Some lc \<Rightarrow> acc \<union> config_files lc)
       langs {}"

definition allowed_core_files :: "string set" where
  "allowed_core_files = {''README.md'', ''LICENSE''}"

definition keeps_file :: "config \<Rightarrow> string list \<Rightarrow> string \<Rightarrow> bool" where
  "keeps_file cfg langs file_path =
     (let file_ext = lower (splitext_ext file_path);
          file_name = basename file_path
      in file_path \<in> allowed_core_files \<or> file_name \<in> allowed_core_files
         \<or> file_ext \<in> allowed_extensions cfg langs
         \<or> (\<exists>pattern\<in>allowed_config_files cfg langs. matches_any_pattern file_path {pattern}))"

definition filter_files ::
  "config \<Rightarrow> string list \<Rightarrow> (string \<times> string) list \<Rightarrow> (string \<times> string) list" where
  "filter_files cfg langs collected =
     filter (\<lambda>(file_path, content). keeps_file cfg langs file_path) collected"

record ('m, 't, 'f) repository_info =
  root_path :: string
  languages :: "string list"
  files :: "(string \<times> string) list"
  file_dependencies :: "(string \<times> string list) list"
  metadata :: "(string \<times> 'm meta_value) list"
  tree_structure :: "(string \<times> tree_node) list"
  token_info :: "(string \<times> 't) list"
  function_info :: "(string \<times> 'f) list"

text \<open>
  \<open>ingest\<close>: \<open>handlers\<close> is \<open>self.handlers\<close> before the call (after it, it is the
  second component of \<open>detect_languages\<close>), \<open>repo_path\<close> the resolved root and \<open>repo\<close>
  the directory found there. The calls to the progress tracker change nothing in
  the result and are left out. The result is \<open>Inl\<close> when the call raises.
\<close>

definition ingest ::
  "('m, 't, 'f) collaborators \<Rightarrow> config \<Rightarrow> (string \<rightharpoonup> 'm handler) \<Rightarrow> string \<Rightarrow> fsnode list
     \<Rightarrow> bool \<Rightarrow> string list option \<Rightarrow> real \<Rightarrow> error + ('m, 't, 'f) repository_info" where
  "ingest env cfg handlers repo_path repo token_estimate_only languages_filter now =
     (let (all_languages, detected_handlers) =
            detect_languages (LANGUAGE_HANDLERS env) cfg repo handlers;
          langs = filter_languages languages_filter all_languages;
          collected = collect_files env cfg detected_handlers repo all_languages;
          kept = (if filter_given languages_filter \<and> langs \<noteq> []
                  then filter_files cfg langs collected
                  else collected)
      in if token_estimate_only then
           (case build_tree_structure kept of
              Inl e \<Rightarrow> Inl e
            | Inr dummy_tree \<Rightarrow>
                Inr \<lparr>root_path = repo_path,
                     languages = langs,
                     files = kept,
                     file_dependencies = [],
                     metadata = [(''languages'', LanguageList langs),
                                 (''file_count'', FileCount (length kept))],
                     tree_structure = dummy_tree,
                     token_info = estimate_repository_tokens env kept
                                    [(''languages'', LanguageList langs)] dummy_tree [],
                     function_info = []\<rparr>)
         else
           (let dependencies = ingestor_analyze_dependencies detected_handlers kept langs;
                meta = extract_metadata detected_handlers kept langs now
            in case build_tree_structure kept of
                 Inl e \<Rightarrow> Inl e
               | Inr tree \<Rightarrow>
                   Inr \<lparr>root_path = repo_path,
                        languages = langs,
                        files = kept,
                        file_dependencies = dependencies,
                        metadata = meta,
                        tree_structure = tree,
                        token_info = estimate_repository_tokens env kept meta tree dependencies,
                        function_info = analyze_functions env kept\<rparr>))"

section \<open>Well-formed repositories\<close>

text \<open>
  What a file system guarantees of a directory tree: a name is not empty, holds no
  slash and is not the single dot, and the entries of one directory have different
  names.
\<close>

definition wf_name :: "string \<Rightarrow> bool" where
  "wf_name n = (n \<noteq> [] \<and> CHR ''/'' \<notin> set n \<and> n \<noteq> ''.'')"

fun node_name :: "fsnode \<Rightarrow> string" where
  "node_name (File filename st_size is_binary content) = filename"
| "node_name (Dir dirname children) = dirname"

fun wf_node :: "fsnode \<Rightarrow> bool" where
  "wf_node (File filename st_size is_binary content) = wf_name filename"
| "wf_node (Dir dirname children) =
     (wf_name dirname \<and> distinct (map node_name children) \<and> list_all wf_node children)"

definition well_formed :: "fsnode list \<Rightarrow> bool" where
  "well_formed root_dir = (distinct (map node_name root_dir) \<and> list_all wf_node root_dir)"

text \<open>The files below a node, each as the list of the names on the way to it.\<close>

fun node_paths :: "fsnode \<Rightarrow> string list list" where
  "node_paths (File filename st_size is_binary content) = [[filename]]"
| "node_paths (Dir dirname children) = map ((#) dirname) (concat (map node_paths children))"

text \<open>The relative path of the directory reached by a list of names.\<close>

definition rel_of :: "string list \<Rightarrow> string" where
  "rel_of names = (if names = [] then ''.'' else join_sep ''/'' names)"

text \<open>Whether a list of names leads to a file of a tree of the result.\<close>

fun leaf_at :: "(string \<times> tree_node) list \<Rightarrow> string list \<Rightarrow> bool" where
  "leaf_at tree [] = False"
| "leaf_at tree (part # rest) =
     (case map_of tree part of
        None \<Rightarrow> False
      | Some NoneLeaf \<Rightarrow> rest = []
      | Some (Directory below) \<Rightarrow> leaf_at below rest)"

section \<open>A concrete setting\<close>

text \<open>
  A handler class of the expected kind, for evaluating the orchestrator: it detects
  its language by the extensions of the language's profile and includes the files
  with these extensions and the include patterns of the profile.
\<close>

definition extension_handler :: "language_config option \<Rightarrow> unit handler" where
  "extension_handler given =
     (let lc = (case given of
                  Some c \<Rightarrow> c
                | None \<Rightarrow> \<lparr>lang_name = [], extensions = {}, include_patterns = {},
                           exclude_patterns = {}, config_files = {}\<rparr>);
          by_extension = (\<lambda>ext. CHR ''*'' # ext) ` extensions lc
      in \<lparr>detect_language = (\<lambda>repo. find_files repo by_extension {} 1024 None \<noteq> []),
          get_include_patterns = include_patterns lc \<union> by_extension,
          get_exclude_patterns = exclude_patterns lc,
          analyze_dependencies = (\<lambda>collected. []),
          extract_project_metadata = (\<lambda>collected. ())\<rparr>)"

definition example_collaborators :: "(unit, nat, unit) collaborators" where
  "example_collaborators =
     \<lparr>LANGUAGE_HANDLERS = [(''csharp'', extension_handler), (''python'', extension_handler),
                            (''react'', extension_handler), (''yaml'', extension_handler)],
      remove_comments_from_content = (\<lambda>file_path content. content),
      estimate_repository_tokens =
        (\<lambda>collected meta tree dependencies. [(''total_tokens'', length (concat (map snd collected)))]),
      analyze_functions = (\<lambda>collected. [])\<rparr>"

definition example_repo :: "fsnode list" where
  "example_repo =
     [File ''main.py'' 20 False ''print(1)'',
      File ''Makefile'' 5 False ''all:'',
      Dir ''docs'' [File ''README.md'' 12 False ''# Docs'']]"

text \<open>A repository in which no language is detected.\<close>

definition plain_repo :: "fsnode list" where
  "plain_repo = [File ''Makefile'' 5 False ''all:'', File ''LICENSE'' 3 False ''MIT'']"

definition example_config :: config where
  "example_config =
     post_init (config_defaults\<lparr>common_include_patterns := {''README.md'', ''LICENSE'', ''Makefile''},
                                common_exclude_patterns := {''.git/'', ''build/**''}\<rparr>)"

text \<open>
  The configuration after \<open>config.languages["python"].include_patterns.add("*.md")\<close>,
  and a repository with a nested \<open>README.md\<close>.
\<close>

definition markdown_config :: config where
  "markdown_config =
     example_config\<lparr>config_languages :=
       (config_languages example_config)
         (''python'' \<mapsto> python_config\<lparr>include_patterns :=
                                insert ''*.md'' (include_patterns python_config)\<rparr>)\<rparr>"

definition nested_repo :: "fsnode list" where
  "nested_repo =
     [File ''main.py'' 20 False ''print(1)'',
      File ''notes.md'' 4 False ''todo'',
      Dir ''docs'' [Dir ''nested'' [File ''README.md'' 12 False ''# Docs'']]]"

section \<open>Properties of the pattern matcher\<close>

lemma split_sep_not_Nil: "split_sep sep s \<noteq> []"
  by (induction s) (auto split: list.splits)

lemma split_sep_no_sep: "sep \<notin> set p \<Longrightarrow> split_sep sep p = [p]"
  by (induction p) auto

lemma split_sep_append: "sep \<notin> set p \<Longrightarrow> split_sep sep (p @ sep # s) = p # split_sep sep s"
  by (induction p) auto

lemma join_split_sep: "join_sep [sep] (split_sep sep s) = s"
proof (induction s)
  case Nil
  show ?case by simp
next
  case (Cons c cs)
  obtain p ps where ps: "split_sep sep cs = p # ps"
    using split_sep_not_Nil [of sep cs] by (cases "split_sep sep cs") auto
  show ?case
  proof (cases "c = sep")
    case True
    with Cons ps show ?thesis by simp
  next
    case False
    with Cons ps show ?thesis by (cases ps) auto
  qed
qed

lemma segment_tails:
  "(\<exists>i. Suc i < length (split_sep sep s) \<and> join_sep [sep] (drop (Suc i) (split_sep sep s)) = t)
     \<longleftrightarrow> suffix (sep # t) s"
proof (induction s)
  case Nil
  show ?case by simp
next
  case (Cons c cs)
  obtain p ps where ps: "split_sep sep cs = p # ps"
    using split_sep_not_Nil [of sep cs] by (cases "split_sep sep cs") auto
  show ?case
  proof (cases "c = sep")
    case True
    have "(\<exists>i. Suc i < length (split_sep sep (c # cs))
              \<and> join_sep [sep] (drop (Suc i) (split_sep sep (c # cs))) = t)
          \<longleftrightarrow> (\<exists>i. i < length (split_sep sep cs) \<and> join_sep [sep] (drop i (split_sep sep cs)) = t)"
      using True by simp
    also have "\<dots> \<longleftrightarrow> (join_sep [sep] (split_sep sep cs) = t
         \<or> (\<exists>i. Suc i < length (split_sep sep cs) \<and> join_sep [sep] (drop (Suc i) (split_sep sep cs)) = t))"
      (is "?L \<longleftrightarrow> ?R")
    proof
      assume ?L
      then obtain i where i: "i < length (split_sep sep cs)" "join_sep [sep] (drop i (split_sep sep cs)) = t"
        by blast
      then show ?R by (cases i) auto
    next
      assume ?R
      then show ?L using split_sep_not_Nil [of sep cs] by (auto intro: exI [of _ 0])
    qed
    also have "\<dots> \<longleftrightarrow> (cs = t \<or> suffix (sep # t) cs)"
      using Cons.IH by (simp add: join_split_sep)
    also have "\<dots> \<longleftrightarrow> suffix (sep # t) (c # cs)"
      using True by (auto simp: suffix_Cons)
    finally show ?thesis .
  next
    case False
    have "(\<exists>i. Suc i < length (split_sep sep (c # cs))
              \<and> join_sep [sep] (drop (Suc i) (split_sep sep (c # cs))) = t)
          \<longleftrightarrow> (\<exists>i. Suc i < length (split_sep sep cs)
              \<and> join_sep [sep] (drop (Suc i) (split_sep sep cs)) = t)"
      using False ps by simp
    also have "\<dots> \<longleftrightarrow> suffix (sep # t) cs"
      by (rule Cons.IH)
    also have "\<dots> \<longleftrightarrow> suffix (sep # t) (c # cs)"
      using False by (auto simp: suffix_Cons)
    finally show ?thesis .
  qed
qed

lemma segment_suffixes:
  "list_ex (\<lambda>i. join_sep [sep] (drop i (split_sep sep s)) = t) [0..<length (split_sep sep s)]
     \<longleftrightarrow> s = t \<or> suffix (sep # t) s"
proof -
  have "list_ex (\<lambda>i. join_sep [sep] (drop i (split_sep sep s)) = t) [0..<length (split_sep sep s)]
    \<longleftrightarrow> (\<exists>i. i < length (split_sep sep s) \<and> join_sep [sep] (drop i (split_sep sep s)) = t)"
    by (auto simp: list_ex_iff)
  also have "\<dots> \<longleftrightarrow> (join_sep [sep] (split_sep sep s) = t
       \<or> (\<exists>i. Suc i < length (split_sep sep s) \<and> join_sep [sep] (drop (Suc i) (split_sep sep s)) = t))"
    (is "?L \<longleftrightarrow> ?R")
  proof
    assume ?L
    then obtain i where "i < length (split_sep sep s)" "join_sep [sep] (drop i (split_sep sep s)) = t"
      by blast
    then show ?R by (cases i) auto
  next
    assume ?R
    then show ?L using split_sep_not_Nil [of sep s] by (auto intro: exI [of _ 0])
  qed
  also have "\<dots> \<longleftrightarrow> (s = t \<or> suffix (sep # t) s)"
    by (simp add: join_split_sep segment_tails)
  finally show ?thesis .
qed

lemma glob_match_literals: "glob_match (map LIT t) s \<longleftrightarrow> s = t"
proof (induction t arbitrary: s)
  case Nil
  show ?case by simp
next
  case (Cons a t)
  then show ?case by (cases s) auto
qed

lemma fnmatch_foo_slash: "fnmatch s ''foo/'' \<longleftrightarrow> s = ''foo/''"
proof -
  have "translate ''foo/'' = map LIT ''foo/''" by simp
  then show ?thesis unfolding fnmatch_def by (simp only: glob_match_literals)
qed

text \<open>
  What the loop computes for the one pattern \<open>foo/\<close>, case by case; \<open>n\<close> is the path
  after its backslashes are replaced by slashes.
\<close>

lemma foo_dir_pattern_cases:
  "matches_any_pattern P {''foo/''} \<longleftrightarrow>
     (let n = replace_backslash P
      in n = ''foo'' \<or> prefix ''foo/'' n \<or> n = ''./foo'' \<or> prefix ''./foo/'' n
         \<or> suffix ''/foo/'' n)"
proof -
  define n where "n = replace_backslash P"
  have pat: "replace_backslash ''foo/'' = ''foo/''"
    by (simp add: replace_backslash_def)
  have loop: "list_ex (\<lambda>i. join_sep ''/'' (drop i (split_sep CHR ''/'' n)) = ''foo/'')
                [0..<length (split_sep CHR ''/'' n)]
              \<longleftrightarrow> n = ''foo/'' \<or> suffix ''/foo/'' n"
    using segment_suffixes [of "CHR ''/''" n "''foo/''"] by simp
  have sl: "suffix ''/'' ''foo/''"
    by (simp add: suffix_def)
  have strip1: "prefix ''./'' n \<Longrightarrow> drop 2 n = ''foo'' \<longleftrightarrow> n = ''./foo''"
    by (auto simp: prefix_def)
  have strip2: "prefix ''./'' n \<Longrightarrow> prefix ''foo/'' (drop 2 n) \<longleftrightarrow> prefix ''./foo/'' n"
    by (auto simp: prefix_def)
  have nodot: "\<not> prefix ''./'' n \<Longrightarrow> n \<noteq> ''./foo'' \<and> \<not> prefix ''./foo/'' n"
    by (auto simp: prefix_def)
  have "matches_any_pattern P {''foo/''} \<longleftrightarrow>
     (n = ''foo'' \<or> prefix ''foo/'' n \<or> n = ''./foo'' \<or> prefix ''./foo/'' n \<or> suffix ''/foo/'' n)"
  proof (cases "prefix ''./'' n")
    case True
    then have "n \<noteq> ''foo''" "\<not> prefix ''foo/'' n" "n \<noteq> ''foo/''"
      by (auto simp: prefix_def)
    with True show ?thesis
      unfolding matches_any_pattern_def pattern_matches_def
      by (auto simp add: pat n_def [symmetric] fnmatch_foo_slash loop strip1 strip2 sl Let_def)
  next
    case False
    with nodot show ?thesis
      unfolding matches_any_pattern_def pattern_matches_def
      by (auto simp add: pat n_def [symmetric] fnmatch_foo_slash loop sl Let_def)
  qed
  then show ?thesis by (simp add: n_def Let_def)
qed

text \<open>
  C1 as stated fails: the walker passes \<open>./foo\<close> for a top-level directory (line 104),
  the matcher accepts it, and it neither equals \<open>foo\<close> nor starts with \<open>foo/\<close>.
\<close>

theorem matches_foo_dir_counterexample:
  "\<not> (matches_any_pattern ''./foo'' {''foo/''} \<longleftrightarrow> (''./foo'' = ''foo'' \<or> prefix ''foo/'' ''./foo''))"
  by code_simp

lemma split_sep_at_sep:
  "split_sep sep (u @ sep # s) = split_sep sep u @ split_sep sep s"
proof (induction u)
  case Nil
  show ?case by simp
next
  case (Cons c cs)
  obtain p ps where ps: "split_sep sep cs = p # ps"
    using split_sep_not_Nil [of sep cs] by (cases "split_sep sep cs") auto
  show ?case
    using Cons.IH ps by simp
qed

lemma foo_segment:
  assumes "n = ''foo'' \<or> prefix ''foo/'' n \<or> n = ''./foo'' \<or> prefix ''./foo/'' n
           \<or> suffix ''/foo/'' n"
  shows "''foo'' \<in> set (split_sep CHR ''/'' n)"
proof -
  have a: "''foo'' \<in> set (split_sep CHR ''/'' (''foo/'' @ s))" for s
    using split_sep_append [of "CHR ''/''" "''foo''" s] by simp
  have b: "''foo'' \<in> set (split_sep CHR ''/'' (''./foo/'' @ s))" for s
    using split_sep_append [of "CHR ''/''" "''.''" "''foo/'' @ s"]
      split_sep_append [of "CHR ''/''" "''foo''" s] by simp
  have c: "''foo'' \<in> set (split_sep CHR ''/'' (u @ ''/foo/''))" for u
    using split_sep_at_sep [of "CHR ''/''" u "''foo/''"] by simp
  from assms show ?thesis
    using a b c by (auto simp: prefix_def suffix_def)
qed

text \<open>
  C1 (as amended). For every path, with \<open>n\<close> the path after its backslashes are
  replaced by slashes: \<open>matches_any_pattern\<close> against the one pattern \<open>foo/\<close> is true
  when \<open>n\<close>, or \<open>n\<close> without a leading \<open>./\<close>, is \<open>foo\<close> or starts with \<open>foo/\<close>, and it
  is false when no segment of \<open>n\<close> is \<open>foo\<close>. Nothing is said of a path that holds
  \<open>foo\<close> as a segment further down.
\<close>

theorem matches_foo_dir:
  "(let n = replace_backslash P
    in (n = ''foo'' \<or> prefix ''foo/'' n \<or> n = ''./foo'' \<or> prefix ''./foo/'' n
          \<longrightarrow> matches_any_pattern P {''foo/''})
       \<and> (''foo'' \<notin> set (split_sep CHR ''/'' n) \<longrightarrow> \<not> matches_any_pattern P {''foo/''}))"
  using foo_dir_pattern_cases [of P] foo_segment [of "replace_backslash P"]
  by (auto simp: Let_def)

theorem matches_foo_dir_witness:
  "matches_any_pattern ''./foo/bar.py'' {''foo/''}
   \<and> \<not> matches_any_pattern ''src/main.py'' {''foo/''}"
proof -
  have n1: "replace_backslash ''./foo/bar.py'' = ''./foo/bar.py''"
    by (simp add: replace_backslash_def)
  have n2: "replace_backslash ''src/main.py'' = ''src/main.py''"
    by (simp add: replace_backslash_def)
  have p1: "prefix ''./foo/'' ''./foo/bar.py''"
    by simp
  have p2: "''foo'' \<notin> set (split_sep CHR ''/'' ''src/main.py'')"
    by simp
  show ?thesis
    using matches_foo_dir [of "''./foo/bar.py''"] matches_foo_dir [of "''src/main.py''"] p1 p2
    unfolding Let_def n1 n2 by blast
qed


section \<open>Properties of the tree of the result\<close>

lemma three_keys:
  assumes "distinct xs" "set xs = {a, b, c}" "a \<noteq> b" "a \<noteq> c" "b \<noteq> c"
  shows "xs \<in> {[a, b, c], [a, c, b], [b, a, c], [b, c, a], [c, a, b], [c, b, a]}"
proof -
  have "card (set xs) = 3"
    using assms by simp
  then have "length xs = 3"
    using assms(1) distinct_card [of xs] by simp
  then obtain x y z where xs: "xs = [x, y, z]"
    by (auto simp: numeral_3_eq_3 length_Suc_conv)
  have mem: "x \<in> {a, b, c}" "y \<in> {a, b, c}" "z \<in> {a, b, c}"
    using assms(2) xs by auto
  have d: "x \<noteq> y" "x \<noteq> z" "y \<noteq> z"
    using assms(1) xs by auto
  from mem d show ?thesis
    unfolding xs by (elim insertE emptyE; simp)
qed

lemma shape_abc:
  "case_sum (\<lambda>e. False) round_trip_shape (insert_paths [''a.py'', ''d/b.py'', ''d/e/c.js''] [])"
  by code_simp

lemma shape_acb:
  "case_sum (\<lambda>e. False) round_trip_shape (insert_paths [''a.py'', ''d/e/c.js'', ''d/b.py''] [])"
  by code_simp

lemma shape_bac:
  "case_sum (\<lambda>e. False) round_trip_shape (insert_paths [''d/b.py'', ''a.py'', ''d/e/c.js''] [])"
  by code_simp

lemma shape_bca:
  "case_sum (\<lambda>e. False) round_trip_shape (insert_paths [''d/b.py'', ''d/e/c.js'', ''a.py''] [])"
  by code_simp

lemma shape_cab:
  "case_sum (\<lambda>e. False) round_trip_shape (insert_paths [''d/e/c.js'', ''a.py'', ''d/b.py''] [])"
  by code_simp

lemma shape_cba:
  "case_sum (\<lambda>e. False) round_trip_shape (insert_paths [''d/e/c.js'', ''d/b.py'', ''a.py''] [])"
  by code_simp

text \<open>
  C8. For a dictionary whose keys are the three paths \<open>a.py\<close>, \<open>d/b.py\<close> and
  \<open>d/e/c.js\<close>, in any order, \<open>_build_tree_structure\<close> returns a tree whose top-level
  keys are exactly \<open>a.py\<close> and \<open>d\<close>, where \<open>d\<close> holds exactly \<open>b.py\<close> and \<open>e\<close>,
  \<open>e\<close> holds exactly \<open>c.js\<close>, and each file name maps to the leaf marker.
\<close>

theorem build_tree_round_trip:
  assumes "distinct (map fst file_dict)"
    and "set (map fst file_dict) = {''a.py'', ''d/b.py'', ''d/e/c.js''}"
  shows "\<exists>tree. build_tree_structure file_dict = Inr tree \<and> round_trip_shape tree"
proof -
  have "map fst file_dict \<in> {[''a.py'', ''d/b.py'', ''d/e/c.js''], [''a.py'', ''d/e/c.js'', ''d/b.py''],
          [''d/b.py'', ''a.py'', ''d/e/c.js''], [''d/b.py'', ''d/e/c.js'', ''a.py''],
          [''d/e/c.js'', ''a.py'', ''d/b.py''], [''d/e/c.js'', ''d/b.py'', ''a.py'']}"
    using assms by (intro three_keys) simp_all
  then have "case_sum (\<lambda>e. False) round_trip_shape (insert_paths (map fst file_dict) [])"
    using shape_abc shape_acb shape_bac shape_bca shape_cab shape_cba
    by (elim insertE emptyE) (simp_all only:)
  then show ?thesis
    unfolding build_tree_structure_def by (cases "insert_paths (map fst file_dict) []") simp_all
qed

theorem build_tree_round_trip_witness:
  "\<exists>tree. build_tree_structure [(''a.py'', ''x = 1''), (''d/b.py'', ''''), (''d/e/c.js'', ''f()'')] = Inr tree
      \<and> round_trip_shape tree"
  using build_tree_round_trip [of "[(''a.py'', ''x = 1''), (''d/b.py'', ''''), (''d/e/c.js'', ''f()'')]"]
  by simp


section \<open>Properties of the configuration\<close>

lemma suffix_globstar_tl: "suffix ''/**'' (tl p) \<Longrightarrow> suffix ''/**'' p"
  by (cases p) (auto simp: suffix_Cons)

lemma normalize_exclude_no_globstar: "\<not> suffix ''/**'' (normalize_exclude p)"
proof -
  have a: "suffix ''/'' q \<Longrightarrow> \<not> suffix ''/**'' q" for q
    by (auto simp: suffix_def)
  have b: "\<not> suffix ''*'' q \<Longrightarrow> \<not> suffix ''/**'' q" for q
    by (auto simp: suffix_def)
  have c: "\<not> suffix ''/**'' (q @ ''/'')" for q
    by (auto simp: suffix_def)
  show ?thesis
    unfolding normalize_exclude_def using a b c by (auto simp del: suffix_snoc)
qed

lemma post_init_canonical:
  "\<forall>p \<in> common_exclude_patterns (post_init self). \<not> suffix ''/**'' p"
  by (auto simp: post_init_def normalize_exclude_no_globstar)

lemma added_pattern_globstar:
  "suffix ''/**'' (if isdir q \<and> \<not> suffix ''/'' q then q @ ''/'' else q)
     \<longleftrightarrow> suffix ''/**'' q \<and> \<not> isdir q"
  by (auto simp: suffix_def)

lemma star_appended: "\<not> suffix ''*'' q \<Longrightarrow> \<not> suffix ''/**'' (q @ ''*'')"
  by (auto simp: suffix_def)

lemma globstar_appended: "\<not> suffix ''/**'' (q @ ''**/*'')"
  by (auto simp: suffix_def)

text \<open>
  C9 (as amended). After a \<open>Config\<close> is constructed no pattern of
  \<open>common_exclude_patterns\<close> ends with \<open>/**\<close>. \<open>add_exclude_pattern\<close> adds its pattern
  as it is: after a call no pattern ends with \<open>/**\<close> exactly when none did before
  and the pattern added (after its backslashes are replaced) does not end with \<open>/**\<close>,
  or names an existing directory and so gets a trailing slash.
\<close>

theorem exclude_patterns_canonical:
  "(\<forall>p \<in> common_exclude_patterns (post_init fresh). \<not> suffix ''/**'' p)
   \<and> ((\<forall>p \<in> common_exclude_patterns (add_exclude_pattern isdir pattern self). \<not> suffix ''/**'' p)
        \<longleftrightarrow> (\<forall>p \<in> common_exclude_patterns self. \<not> suffix ''/**'' p)
             \<and> \<not> (suffix ''/**'' (replace_backslash pattern) \<and> \<not> isdir (replace_backslash pattern)))"
proof -
  define q where "q = replace_backslash pattern"
  define r where "r = (if isdir q \<and> \<not> suffix ''/'' q then q @ ''/'' else q)"
  have r: "suffix ''/**'' r \<longleftrightarrow> suffix ''/**'' q \<and> \<not> isdir q"
    unfolding r_def by (rule added_pattern_globstar)
  have "(\<forall>p \<in> common_exclude_patterns (add_exclude_pattern isdir pattern self). \<not> suffix ''/**'' p)
        \<longleftrightarrow> (\<forall>p \<in> common_exclude_patterns self. \<not> suffix ''/**'' p) \<and> \<not> suffix ''/**'' r"
    unfolding add_exclude_pattern_def Let_def q_def [symmetric] r_def [symmetric]
    using suffix_globstar_tl [of r] star_appended [of r] globstar_appended [of r]
    by (auto simp del: suffix_snoc)
  with r post_init_canonical show ?thesis
    unfolding q_def by blast
qed

text \<open>
  C9 as stated fails: \<open>add_exclude_pattern\<close> of \<open>build/**\<close> on the default
  configuration leaves that pattern in the set.
\<close>

theorem exclude_patterns_canonical_counterexample:
  "''build/**'' \<in> common_exclude_patterns (add_exclude_pattern no_directory ''build/**'' DEFAULT_CONFIG)
   \<and> suffix ''/**'' ''build/**''"
  by (simp add: add_exclude_pattern_def replace_backslash_def no_directory_def Let_def suffix_def)

theorem exclude_patterns_canonical_witness:
  "''build/'' \<in> common_exclude_patterns (post_init (config_defaults\<lparr>common_exclude_patterns := {''build/**''}\<rparr>))
   \<and> \<not> suffix ''/**'' ''build/''
   \<and> ''docs/'' \<in> common_exclude_patterns (add_exclude_pattern no_directory ''docs/''
         (post_init (config_defaults\<lparr>common_exclude_patterns := {''build/**''}\<rparr>)))
   \<and> \<not> suffix ''/**'' ''docs/''"
proof -
  let ?fresh = "config_defaults\<lparr>common_exclude_patterns := {''build/**''}\<rparr>"
  note inst = exclude_patterns_canonical [of ?fresh no_directory "''docs/''" "post_init ?fresh"]
  have m1: "''build/'' \<in> common_exclude_patterns (post_init ?fresh)"
    by (simp add: post_init_def normalize_exclude_def replace_backslash_def suffix_def)
  have m2: "''docs/'' \<in> common_exclude_patterns (add_exclude_pattern no_directory ''docs/'' (post_init ?fresh))"
    by (simp add: add_exclude_pattern_def replace_backslash_def no_directory_def Let_def suffix_def)
  have q: "\<not> suffix ''/**'' (replace_backslash ''docs/'')"
    by (simp add: replace_backslash_def suffix_def)
  from inst m1 have a: "\<not> suffix ''/**'' ''build/''"
    by blast
  from inst q have "\<forall>p \<in> common_exclude_patterns (add_exclude_pattern no_directory ''docs/'' (post_init ?fresh)).
      \<not> suffix ''/**'' p"
    by blast
  with m2 have b: "\<not> suffix ''/**'' ''docs/''"
    by blast
  from m1 a m2 b show ?thesis by blast
qed

section \<open>Properties of the orchestrator\<close>

subsection \<open>Detection\<close>

lemma detect_languages_map_add:
  "snd (detect_languages registry cfg repo handlers)
     = handlers ++ snd (detect_languages registry cfg repo Map.empty)"
proof (induction registry arbitrary: handlers)
  case Nil
  show ?case by simp
next
  case (Cons entry registry)
  obtain lang handler_class where entry: "entry = (lang, handler_class)"
    by (cases entry)
  let ?h = "handler_class (config_languages cfg lang)"
  let ?rest = "snd (detect_languages registry cfg repo Map.empty)"
  have step: "snd (detect_languages (entry # registry) cfg repo g)
                = (if detect_language ?h repo
                   then snd (detect_languages registry cfg repo (g(lang \<mapsto> ?h)))
                   else snd (detect_languages registry cfg repo g))" for g
    by (simp add: entry Let_def split_beta)
  show ?case
  proof (cases "detect_language ?h repo")
    case True
    have "snd (detect_languages (entry # registry) cfg repo handlers)
            = handlers(lang \<mapsto> ?h) ++ ?rest"
      using True Cons.IH [of "handlers(lang \<mapsto> ?h)"] by (simp only: step if_True)
    also have "\<dots> = handlers ++ (Map.empty(lang \<mapsto> ?h) ++ ?rest)"
      by (rule ext) (simp add: map_add_def split: option.splits)
    also have "Map.empty(lang \<mapsto> ?h) ++ ?rest
                 = snd (detect_languages (entry # registry) cfg repo Map.empty)"
      using True Cons.IH [of "Map.empty(lang \<mapsto> ?h)"] by (simp only: step if_True)
    finally show ?thesis .
  next
    case False
    have "snd (detect_languages (entry # registry) cfg repo handlers) = handlers ++ ?rest"
      using False Cons.IH [of handlers] by (simp only: step if_False)
    moreover have "snd (detect_languages (entry # registry) cfg repo Map.empty) = ?rest"
      using False by (simp only: step if_False)
    ultimately show ?thesis by (simp only:)
  qed
qed

lemma detect_languages_fst:
  "fst (detect_languages registry cfg repo handlers)
     = fst (detect_languages registry cfg repo Map.empty)"
proof (induction registry arbitrary: handlers)
  case Nil
  show ?case by simp
next
  case (Cons entry registry)
  obtain lang handler_class where entry: "entry = (lang, handler_class)"
    by (cases entry)
  let ?h = "handler_class (config_languages cfg lang)"
  have step: "fst (detect_languages (entry # registry) cfg repo g)
                = (if detect_language ?h repo
                   then lang # fst (detect_languages registry cfg repo (g(lang \<mapsto> ?h)))
                   else fst (detect_languages registry cfg repo g))" for g
    by (simp add: entry Let_def split_beta)
  have "fst (detect_languages registry cfg repo (handlers(lang \<mapsto> ?h)))
          = fst (detect_languages registry cfg repo (Map.empty(lang \<mapsto> ?h)))"
    using Cons.IH [of "handlers(lang \<mapsto> ?h)"] Cons.IH [of "Map.empty(lang \<mapsto> ?h)"]
    by (simp only:)
  moreover have "fst (detect_languages registry cfg repo handlers)
          = fst (detect_languages registry cfg repo Map.empty)"
    by (rule Cons.IH)
  ultimately show ?case
    by (simp only: step)
qed

lemma detect_languages_dom:
  "set (fst (detect_languages registry cfg repo Map.empty))
     = dom (snd (detect_languages registry cfg repo Map.empty))"
proof (induction registry)
  case Nil
  show ?case by simp
next
  case (Cons entry registry)
  obtain lang handler_class where entry: "entry = (lang, handler_class)"
    by (cases entry)
  let ?h = "handler_class (config_languages cfg lang)"
  show ?case
  proof (cases "detect_language ?h repo")
    case True
    have f: "fst (detect_languages (entry # registry) cfg repo Map.empty)
               = lang # fst (detect_languages registry cfg repo Map.empty)"
      using True entry detect_languages_fst [of registry cfg repo "Map.empty(lang \<mapsto> ?h)"]
      by (simp add: Let_def split_beta)
    have s: "snd (detect_languages (entry # registry) cfg repo Map.empty)
               = Map.empty(lang \<mapsto> ?h) ++ snd (detect_languages registry cfg repo Map.empty)"
      using True entry detect_languages_map_add [of registry cfg repo "Map.empty(lang \<mapsto> ?h)"]
      by (simp add: Let_def split_beta)
    show ?thesis
      unfolding f s using Cons.IH by auto
  next
    case False
    then show ?thesis using entry Cons.IH by simp
  qed
qed

lemma detected_handlers_agree:
  assumes "lang \<in> set (fst (detect_languages registry cfg repo h1))"
  shows "snd (detect_languages registry cfg repo h1) lang
           = snd (detect_languages registry cfg repo h2) lang"
proof -
  have "lang \<in> dom (snd (detect_languages registry cfg repo Map.empty))"
    using assms detect_languages_fst [of registry cfg repo h1] detect_languages_dom [of registry cfg repo]
    by simp
  then show ?thesis
    using detect_languages_map_add [of registry cfg repo h1]
      detect_languages_map_add [of registry cfg repo h2]
    by (auto simp: map_add_def split: option.splits)
qed

lemma detected_in_handlers:
  assumes "lang \<in> set (fst (detect_languages registry cfg repo h))"
  shows "lang \<in> dom (snd (detect_languages registry cfg repo h))"
proof -
  have "lang \<in> dom (snd (detect_languages registry cfg repo Map.empty))"
    using assms detect_languages_fst [of registry cfg repo h] detect_languages_dom [of registry cfg repo]
    by simp
  then show ?thesis
    using detect_languages_map_add [of registry cfg repo h] by auto
qed

subsection \<open>Collection\<close>

lemma collect_include_patterns_cong:
  assumes "\<forall>lang \<in> set langs. h1 lang = h2 lang"
  shows "collect_include_patterns cfg h1 langs = collect_include_patterns cfg h2 langs"
  unfolding collect_include_patterns_def using assms by (intro fold_cong) auto

lemma collect_exclude_patterns_cong:
  assumes "\<forall>lang \<in> set langs. h1 lang = h2 lang"
  shows "collect_exclude_patterns cfg h1 langs = collect_exclude_patterns cfg h2 langs"
  unfolding collect_exclude_patterns_def using assms by (intro fold_cong) auto

lemma should_include_cong:
  assumes "\<forall>lang \<in> set langs. h1 lang = h2 lang"
  shows "should_include cfg h1 langs rel = should_include cfg h2 langs rel"
proof -
  have "list_ex (\<lambda>lang. case h1 lang of None \<Rightarrow> False
            | Some h \<Rightarrow> (\<exists>pattern\<in>get_include_patterns h. matches_any_pattern rel {pattern})) langs
      = list_ex (\<lambda>lang. case h2 lang of None \<Rightarrow> False
            | Some h \<Rightarrow> (\<exists>pattern\<in>get_include_patterns h. matches_any_pattern rel {pattern})) langs"
    using assms by (auto simp: list_ex_iff)
  then show ?thesis
    unfolding should_include_def by simp
qed

lemma collect_files_cong:
  assumes "\<forall>lang \<in> set langs. h1 lang = h2 lang"
  shows "collect_files env cfg h1 repo langs = collect_files env cfg h2 repo langs"
proof -
  have "should_include cfg h1 langs = should_include cfg h2 langs"
    using should_include_cong [OF assms] by (intro ext)
  then show ?thesis
    unfolding collect_files_def
    using collect_include_patterns_cong [OF assms] collect_exclude_patterns_cong [OF assms]
    by simp
qed

lemma collect_files_detected:
  "collect_files env cfg (snd (detect_languages registry cfg repo h1)) repo'
      (fst (detect_languages registry cfg repo h1))
   = collect_files env cfg (snd (detect_languages registry cfg repo h2)) repo'
      (fst (detect_languages registry cfg repo h2))"
proof -
  have f: "fst (detect_languages registry cfg repo h1) = fst (detect_languages registry cfg repo h2)"
    using detect_languages_fst [of registry cfg repo h1] detect_languages_fst [of registry cfg repo h2]
    by simp
  show ?thesis
    unfolding f [symmetric]
    by (rule collect_files_cong) (auto intro: detected_handlers_agree)
qed

lemma filter_files_subset: "set (filter_files cfg langs collected) \<subseteq> set collected"
  by (auto simp: filter_files_def)

lemma ingest_files:
  assumes "ingest env cfg handlers repo_path repo estimate wanted now = Inr r"
  shows "files r =
           (if filter_given wanted
                \<and> filter_languages wanted (fst (detect_languages (LANGUAGE_HANDLERS env) cfg repo handlers)) \<noteq> []
            then filter_files cfg
                   (filter_languages wanted (fst (detect_languages (LANGUAGE_HANDLERS env) cfg repo handlers)))
                   (collect_files env cfg (snd (detect_languages (LANGUAGE_HANDLERS env) cfg repo handlers)) repo
                      (fst (detect_languages (LANGUAGE_HANDLERS env) cfg repo handlers)))
            else collect_files env cfg (snd (detect_languages (LANGUAGE_HANDLERS env) cfg repo handlers)) repo
                   (fst (detect_languages (LANGUAGE_HANDLERS env) cfg repo handlers)))"
proof (cases estimate)
  case True
  with assms show ?thesis
    unfolding ingest_def Let_def split_beta
    by (cases "filter_given wanted
                \<and> filter_languages wanted (fst (detect_languages (LANGUAGE_HANDLERS env) cfg repo handlers)) \<noteq> []")
       (auto split: sum.splits)
next
  case False
  with assms show ?thesis
    unfolding ingest_def Let_def split_beta
    by (cases "filter_given wanted
                \<and> filter_languages wanted (fst (detect_languages (LANGUAGE_HANDLERS env) cfg repo handlers)) \<noteq> []")
       (auto split: sum.splits)
qed

text \<open>
  C4. For every repository, the file paths of the result of \<open>ingest\<close> with a
  language filter (\<open>["python"]\<close> or any other) are among the file paths of the
  result of \<open>ingest\<close> with no filter, whatever \<open>self.handlers\<close> held before either
  call.
\<close>

theorem language_filter_monotone:
  assumes "ingest env cfg h1 repo_path repo estimate1 (Some wanted) now1 = Inr filtered"
    and "ingest env cfg h2 repo_path repo estimate2 None now2 = Inr unfiltered"
  shows "set (map fst (files filtered)) \<subseteq> set (map fst (files unfiltered))"
proof -
  let ?reg = "LANGUAGE_HANDLERS env"
  let ?c1 = "collect_files env cfg (snd (detect_languages ?reg cfg repo h1)) repo
               (fst (detect_languages ?reg cfg repo h1))"
  let ?c2 = "collect_files env cfg (snd (detect_languages ?reg cfg repo h2)) repo
               (fst (detect_languages ?reg cfg repo h2))"
  have same: "?c1 = ?c2"
    by (rule collect_files_detected)
  have "files unfiltered = ?c2"
    using ingest_files [OF assms(2)] by (simp add: filter_given_def)
  moreover have "set (files filtered) \<subseteq> set ?c1"
    using ingest_files [OF assms(1)] filter_files_subset [of cfg] by (auto split: if_splits)
  ultimately show ?thesis
    using same by auto
qed

lemma ingest_languages:
  assumes "ingest env cfg handlers repo_path repo estimate wanted now = Inr r"
  shows "languages r
           = filter_languages wanted (fst (detect_languages (LANGUAGE_HANDLERS env) cfg repo handlers))"
  using assms unfolding ingest_def Let_def split_beta
  by (cases estimate) (auto split: sum.splits)

lemma ingest_metadata:
  assumes "ingest env cfg handlers repo_path repo estimate wanted now = Inr r"
  shows "metadata r =
           (if estimate
            then [(''languages'', LanguageList (languages r)),
                  (''file_count'', FileCount (length (files r)))]
            else extract_metadata (snd (detect_languages (LANGUAGE_HANDLERS env) cfg repo handlers))
                   (files r) (languages r) now)"
  using assms unfolding ingest_def Let_def split_beta
  by (cases estimate) (auto split: sum.splits)

lemma fold_update_keys:
  "fst ` set (fold (\<lambda>(file_path, relative_path) collected.
                     if keep relative_path
                     then AList.update relative_path (text file_path relative_path) collected
                     else collected) found acc)
     = fst ` set acc \<union> {rel \<in> snd ` set found. keep rel}"
proof (induction found arbitrary: acc)
  case Nil
  show ?case by simp
next
  case (Cons entry found)
  obtain file_path relative_path where entry: "entry = (file_path, relative_path)"
    by (cases entry)
  show ?case
  proof (cases "keep relative_path")
    case True
    then show ?thesis
      unfolding entry
      using Cons.IH [of "AList.update relative_path (text file_path relative_path) acc"]
      by (auto simp: dom_update)
  next
    case False
    then show ?thesis
      unfolding entry using Cons.IH [of acc] by auto
  qed
qed

lemma collect_files_keys:
  "set (map fst (collect_files env cfg handlers repo langs))
     = {rel \<in> snd ` set (find_files repo (collect_include_patterns cfg handlers langs)
                           (collect_exclude_patterns cfg handlers langs)
                           (max_file_size_kb cfg) (max_depth cfg)).
          should_include cfg handlers langs rel}"
  unfolding collect_files_def Let_def set_map by (simp only: fold_update_keys) simp

lemma language_metadata_keys:
  "fst ` set (fold (\<lambda>lang acc. case handlers lang of
                                   None \<Rightarrow> acc
                                 | Some h \<Rightarrow> AList.update lang (value_of h) acc) langs acc0)
     = fst ` set acc0 \<union> {lang \<in> set langs. handlers lang \<noteq> None}"
proof (induction langs arbitrary: acc0)
  case Nil
  show ?case by simp
next
  case (Cons lang langs)
  show ?case
  proof (cases "handlers lang")
    case None
    then show ?thesis
      using Cons.IH [of acc0] by auto
  next
    case (Some h)
    then show ?thesis
      using Cons.IH [of "AList.update lang (value_of h) acc0"] by (auto simp: dom_update)
  qed
qed

lemma filter_languages_subset: "set (filter_languages wanted all_languages) \<subseteq> set all_languages"
  by (auto simp: filter_languages_def)

text \<open>
  C7 (as amended). The metadata of every result holds the languages and the file
  count. In full-analysis mode it holds, besides, the timestamp and the
  per-language metadata, one entry for each language of the result; in
  estimate-only mode it holds nothing else.
\<close>

theorem metadata_contents:
  assumes "ingest env cfg handlers repo_path repo estimate wanted now = Inr r"
  shows "map_of (metadata r) ''languages'' = Some (LanguageList (languages r))
         \<and> map_of (metadata r) ''file_count'' = Some (FileCount (length (files r)))
         \<and> (if estimate
            then map fst (metadata r) = [''languages'', ''file_count'']
            else map fst (metadata r) = [''timestamp'', ''languages'', ''file_count'', ''language_metadata'']
                 \<and> map_of (metadata r) ''timestamp'' = Some (Timestamp now)
                 \<and> (\<exists>per_language.
                       map_of (metadata r) ''language_metadata'' = Some (LanguageMetadata per_language)
                       \<and> set (map fst per_language) = set (languages r)))"
proof (cases estimate)
  case True
  then show ?thesis
    using ingest_metadata [OF assms] by simp
next
  case False
  let ?hs = "snd (detect_languages (LANGUAGE_HANDLERS env) cfg repo handlers)"
  have md: "metadata r = extract_metadata ?hs (files r) (languages r) now"
    using False ingest_metadata [OF assms] by simp
  have "set (languages r) \<subseteq> dom ?hs"
    using ingest_languages [OF assms] filter_languages_subset detected_in_handlers by fastforce
  then have "{lang \<in> set (languages r). ?hs lang \<noteq> None} = set (languages r)"
    by auto
  then have keys: "fst ` set (fold (\<lambda>lang acc. case ?hs lang of
                                      None \<Rightarrow> acc
                                    | Some h \<Rightarrow> AList.update lang (extract_project_metadata h (files r)) acc)
                             (languages r) []) = set (languages r)"
    by (simp only: language_metadata_keys) simp
  show ?thesis
    using False keys unfolding md extract_metadata_def by simp
qed

lemma basename_core: "basename file_path \<in> allowed_core_files \<Longrightarrow> keeps_file cfg langs file_path"
  by (simp add: keeps_file_def Let_def)

text \<open>
  C10. When a language filter is given and matches, case-insensitively, at least one
  detected language, every collected file whose basename is \<open>README.md\<close> or
  \<open>LICENSE\<close>, at any depth, is in the files of the result.
\<close>

theorem core_files_kept:
  assumes "ingest env cfg handlers repo_path repo estimate (Some wanted) now = Inr r"
    and "detect_languages (LANGUAGE_HANDLERS env) cfg repo handlers = (all_languages, detected_handlers)"
    and "\<exists>lang \<in> set all_languages. lower lang \<in> set (map lower wanted)"
    and "(file_path, content) \<in> set (collect_files env cfg detected_handlers repo all_languages)"
    and "basename file_path = ''README.md'' \<or> basename file_path = ''LICENSE''"
  shows "(file_path, content) \<in> set (files r)"
proof -
  have given: "filter_given (Some wanted)" "all_languages \<noteq> []"
    using assms(3) by (auto simp: filter_given_def)
  then have langs: "filter_languages (Some wanted) all_languages \<noteq> []"
    using assms(3) by (auto simp: filter_languages_def filter_empty_conv)
  have "files r = filter_files cfg (filter_languages (Some wanted) all_languages)
                    (collect_files env cfg detected_handlers repo all_languages)"
    using ingest_files [OF assms(1)] assms(2) given(1) langs by simp
  moreover have "keeps_file cfg (filter_languages (Some wanted) all_languages) file_path"
    using assms(5) by (intro basename_core) (auto simp: allowed_core_files_def)
  ultimately show ?thesis
    using assms(4) by (simp add: filter_files_def)
qed

section \<open>The tree of a well-formed repository\<close>

subsection \<open>Building the tree never fails on paths none of which runs through another\<close>

lemma insert_path_succeeds:
  assumes "\<forall>q. strict_prefix q parts \<longrightarrow> \<not> leaf_at tree q"
  shows "\<exists>tree'. insert_path parts tree = Inr tree'"
  using assms
proof (induction parts tree rule: insert_path.induct)
  case (1 current)
  show ?case by simp
next
  case (2 part current)
  show ?case by simp
next
  case (3 part v va current)
  let ?rest = "v # va"
  show ?case
  proof (cases "map_of current part")
    case None
    have "\<forall>q. strict_prefix q ?rest \<longrightarrow> \<not> leaf_at [] q"
    proof (intro allI impI)
      fix q
      show "\<not> leaf_at [] q" by (cases q) simp_all
    qed
    then obtain sub where "insert_path ?rest [] = Inr sub"
      using "3.IH"(1) [OF None] by blast
    with None show ?thesis by simp
  next
    case (Some node)
    show ?thesis
    proof (cases node)
      case NoneLeaf
      have "strict_prefix [part] (part # ?rest)"
        by (simp add: strict_prefix_def)
      moreover have "leaf_at current [part]"
        using Some NoneLeaf by simp
      ultimately show ?thesis
        using "3.prems" by blast
    next
      case (Directory below)
      have "\<forall>q. strict_prefix q ?rest \<longrightarrow> \<not> leaf_at below q"
      proof (intro allI impI)
        fix q
        assume "strict_prefix q ?rest"
        then have "strict_prefix (part # q) (part # ?rest)"
          by (simp add: strict_prefix_def)
        then have "\<not> leaf_at current (part # q)"
          using "3.prems" by blast
        then show "\<not> leaf_at below q"
          using Some Directory by simp
      qed
      then obtain sub where "insert_path ?rest below = Inr sub"
        using "3.IH"(2) [OF Some Directory] by blast
      with Some Directory show ?thesis by simp
    qed
  qed
qed

lemma leaf_at_Nil [simp]: "\<not> leaf_at [] q"
  by (cases q) simp_all

lemma insert_path_leaves:
  assumes "insert_path parts tree = Inr tree'" and "leaf_at tree' q"
  shows "q = parts \<or> leaf_at tree q"
  using assms
proof (induction parts tree arbitrary: tree' q rule: insert_path.induct)
  case (1 current)
  then show ?case by simp
next
  case (2 part current)
  then have t: "tree' = AList.update part NoneLeaf current"
    by simp
  show ?case
  proof (cases q)
    case Nil
    with 2 show ?thesis by simp
  next
    case (Cons p ps)
    have "if p = part then ps = [] else leaf_at current (p # ps)"
      using 2(2) unfolding t Cons by (auto simp: update_conv' split: if_splits)
    then show ?thesis
      using Cons by (auto split: if_splits)
  qed
next
  case (3 part v va current)
  let ?rest = "v # va"
  show ?case
  proof (cases q)
    case Nil
    with 3 show ?thesis by simp
  next
    case (Cons p ps)
    show ?thesis
    proof (cases "map_of current part")
      case None
      then obtain sub where sub: "insert_path ?rest [] = Inr sub"
        and t: "tree' = AList.update part (Directory sub) current"
        using "3.prems"(1) by (auto split: sum.splits)
      show ?thesis
      proof (cases "p = part")
        case True
        then have "leaf_at sub ps"
          using "3.prems"(2) Cons t by (simp add: update_conv')
        then have "ps = ?rest"
          using "3.IH"(1) [OF None sub] by simp
        with True Cons show ?thesis by simp
      next
        case False
        then show ?thesis
          using "3.prems"(2) Cons t by (simp add: update_conv')
      qed
    next
      case (Some node)
      show ?thesis
      proof (cases node)
        case NoneLeaf
        with Some "3.prems"(1) show ?thesis by simp
      next
        case (Directory below)
        then obtain sub where sub: "insert_path ?rest below = Inr sub"
          and t: "tree' = AList.update part (Directory sub) current"
          using "3.prems"(1) Some by (auto split: sum.splits)
        show ?thesis
        proof (cases "p = part")
          case True
          then have "leaf_at sub ps"
            using "3.prems"(2) Cons t by (simp add: update_conv')
          then have "ps = ?rest \<or> leaf_at below ps"
            using "3.IH"(2) [OF Some Directory sub] by simp
          with True Cons Some Directory show ?thesis by auto
        next
          case False
          then show ?thesis
            using "3.prems"(2) Cons t by (simp add: update_conv')
        qed
      qed
    qed
  qed
qed

lemma insert_paths_succeeds:
  assumes "\<forall>q. leaf_at tree q \<longrightarrow> q \<in> S"
    and "\<forall>file_path \<in> set paths. split_sep CHR ''/'' file_path \<in> S"
    and "\<forall>a \<in> S. \<forall>b \<in> S. \<not> strict_prefix a b"
  shows "\<exists>tree'. insert_paths paths tree = Inr tree'"
  using assms
proof (induction paths arbitrary: tree)
  case Nil
  show ?case by simp
next
  case (Cons file_path paths)
  let ?parts = "split_sep CHR ''/'' file_path"
  have parts: "?parts \<in> S"
    using Cons.prems(2) by simp
  have "\<forall>q. strict_prefix q ?parts \<longrightarrow> \<not> leaf_at tree q"
    using Cons.prems(1,3) parts by blast
  then obtain tree' where t: "insert_path ?parts tree = Inr tree'"
    using insert_path_succeeds by blast
  have "\<forall>q. leaf_at tree' q \<longrightarrow> q \<in> S"
    using insert_path_leaves [OF t] Cons.prems(1) parts by blast
  then obtain tree'' where "insert_paths paths tree' = Inr tree''"
    using Cons.IH [of tree'] Cons.prems(2,3) by auto
  with t show ?case by simp
qed

subsection \<open>The paths the walker returns\<close>

lemma split_join_names:
  assumes "names \<noteq> []" and "\<forall>n \<in> set names. sep \<notin> set n"
  shows "split_sep sep (join_sep [sep] names) = names"
  using assms
proof (induction names)
  case Nil
  then show ?case by simp
next
  case (Cons p ps)
  show ?case
  proof (cases ps)
    case Nil
    with Cons.prems show ?thesis by (simp add: split_sep_no_sep)
  next
    case (Cons q qs)
    with Cons.prems Cons.IH show ?thesis by (simp add: split_sep_append)
  qed
qed

lemma join_sep_snoc: "names \<noteq> [] \<Longrightarrow> join_sep sep (names @ [n]) = join_sep sep names @ sep @ n"
proof (induction names)
  case Nil
  then show ?case by simp
next
  case (Cons p ps)
  then show ?case by (cases ps) auto
qed

lemma rel_of_not_dot:
  assumes "names \<noteq> []" and "\<forall>n \<in> set names. wf_name n"
  shows "rel_of names \<noteq> ''.''"
proof (cases names)
  case Nil
  with assms show ?thesis by simp
next
  case (Cons x xs)
  show ?thesis
  proof (cases xs)
    case Nil
    with Cons assms show ?thesis by (simp add: rel_of_def wf_name_def)
  next
    case (Cons y ys)
    have "CHR ''/'' \<in> set (rel_of names)"
      using \<open>names = x # xs\<close> Cons by (simp add: rel_of_def)
    then show ?thesis by auto
  qed
qed

lemma child_rel_rel_of:
  assumes "\<forall>n \<in> set names. wf_name n"
  shows "child_rel (rel_of names) entry = rel_of (names @ [entry])"
proof (cases "names = []")
  case True
  then show ?thesis by (simp add: child_rel_def rel_of_def)
next
  case False
  then have "rel_of names \<noteq> ''.''"
    using assms by (rule rel_of_not_dot)
  with False show ?thesis
    by (simp add: child_rel_def rel_of_def join_sep_snoc)
qed

lemma split_rel_of:
  assumes "names \<noteq> []" and "\<forall>n \<in> set names. wf_name n"
  shows "split_sep CHR ''/'' (rel_of names) = names"
  using assms split_join_names [of names "CHR ''/''"] by (simp add: rel_of_def wf_name_def)

lemma walk_subdirs_Cons:
  "walk_subdirs inc exc sz md rel (e # es)
     = walk_subdirs inc exc sz md rel [e] @ walk_subdirs inc exc sz md rel es"
  by (cases e) simp_all

lemma walk_subdirs_member:
  assumes "x \<in> set (walk_subdirs inc exc sz md rel es)"
  shows "\<exists>e \<in> set es. x \<in> set (walk_subdirs inc exc sz md rel [e])"
  using assms
proof (induction es)
  case Nil
  then show ?case by simp
next
  case (Cons e es)
  from Cons.prems have "x \<in> set (walk_subdirs inc exc sz md rel [e])
      \<or> x \<in> set (walk_subdirs inc exc sz md rel es)"
    by (subst (asm) walk_subdirs_Cons) simp
  with Cons.IH show ?case by auto
qed

lemma walk_member:
  assumes "x \<in> set (walk inc exc sz md rel es)"
  shows "(\<exists>c \<in> set es. x \<in> set (select_file inc exc sz rel c))
         \<or> (\<exists>c \<in> set es. x \<in> set (walk_subdirs inc exc sz md rel [c]))"
proof -
  from assms have "x \<in> set (concat (map (select_file inc exc sz rel) es))
      \<or> x \<in> set (walk_subdirs inc exc sz md rel es)"
    by (simp split: if_splits)
  then show ?thesis
    using walk_subdirs_member [of x inc exc sz md rel es] by auto
qed

lemma select_file_path:
  assumes "(f, r) \<in> set (select_file inc exc sz rel e)"
  shows "\<exists>filename. [filename] \<in> set (node_paths e) \<and> r = child_rel rel filename"
  using assms by (cases e) (auto simp: select_file_def Let_def split: if_splits)

lemma walk_subdirs_paths:
  assumes "wf_node e" and "\<forall>n \<in> set names. wf_name n"
    and "(f, r) \<in> set (walk_subdirs inc exc sz md (rel_of names) [e])"
  shows "\<exists>path \<in> set (node_paths e). split_sep CHR ''/'' r = names @ path"
  using assms
proof (induction e arbitrary: names f r)
  case (File filename st_size is_binary content)
  then show ?case by simp
next
  case (Dir dirname children)
  let ?names = "names @ [dirname]"
  have wf: "\<forall>n \<in> set ?names. wf_name n"
    using Dir.prems(1,2) by simp
  have rel: "child_rel (rel_of names) dirname = rel_of ?names"
    using Dir.prems(2) by (rule child_rel_rel_of)
  have "(f, r) \<in> set (walk inc exc sz md (rel_of ?names) children)"
    using Dir.prems(3) rel by (simp split: if_splits)
  then consider
      (here) c where "c \<in> set children" "(f, r) \<in> set (select_file inc exc sz (rel_of ?names) c)"
    | (below) c where "c \<in> set children" "(f, r) \<in> set (walk_subdirs inc exc sz md (rel_of ?names) [c])"
    using walk_member by blast
  then show ?case
  proof cases
    case here
    then obtain filename where fn: "[filename] \<in> set (node_paths c)"
      and r: "r = child_rel (rel_of ?names) filename"
      using select_file_path by blast
    have "wf_node c"
      using Dir.prems(1) here(1) by (simp add: list_all_iff)
    then have "wf_name filename"
      using fn by (cases c) auto
    then have "\<forall>n \<in> set (?names @ [filename]). wf_name n"
      using wf by simp
    then have "split_sep CHR ''/'' (rel_of (?names @ [filename])) = ?names @ [filename]"
      by (intro split_rel_of) simp_all
    then have "split_sep CHR ''/'' r = names @ dirname # [filename]"
      using r child_rel_rel_of [OF wf, of filename] by simp
    moreover have "dirname # [filename] \<in> set (node_paths (Dir dirname children))"
      using fn here(1) by auto
    ultimately show ?thesis by blast
  next
    case below
    have "wf_node c"
      using Dir.prems(1) below(1) by (simp add: list_all_iff)
    then obtain path where path: "path \<in> set (node_paths c)"
      and r: "split_sep CHR ''/'' r = ?names @ path"
      using Dir.IH [OF below(1) _ wf below(2)] by blast
    have "dirname # path \<in> set (node_paths (Dir dirname children))"
      using path below(1) by auto
    with r show ?thesis by force
  qed
qed

lemma find_files_paths:
  assumes "well_formed repo" and "(f, r) \<in> set (find_files repo inc exc sz md)"
  shows "split_sep CHR ''/'' r \<in> (\<Union>e \<in> set repo. set (node_paths e))"
proof -
  have root: "rel_of [] = ''.''"
    by (simp add: rel_of_def)
  from assms(2) consider
      (here) c where "c \<in> set repo" "(f, r) \<in> set (select_file inc exc sz ''.'' c)"
    | (below) c where "c \<in> set repo" "(f, r) \<in> set (walk_subdirs inc exc sz md ''.'' [c])"
    unfolding find_files_def using walk_member by blast
  then show ?thesis
  proof cases
    case here
    then obtain filename where fn: "[filename] \<in> set (node_paths c)"
      and r: "r = child_rel ''.'' filename"
      using select_file_path by blast
    have "wf_node c"
      using assms(1) here(1) by (simp add: well_formed_def list_all_iff)
    then have "wf_name filename"
      using fn by (cases c) auto
    then have "split_sep CHR ''/'' r = [filename]"
      using r by (simp add: child_rel_def wf_name_def split_sep_no_sep)
    with fn here(1) show ?thesis by auto
  next
    case below
    have "wf_node c"
      using assms(1) below(1) by (simp add: well_formed_def list_all_iff)
    then obtain path where "path \<in> set (node_paths c)" "split_sep CHR ''/'' r = [] @ path"
      using walk_subdirs_paths [of c "[]" f r inc exc sz md] below(2) root by auto
    with below(1) show ?thesis by auto
  qed
qed

subsection \<open>No file of a well-formed repository lies on the way to another\<close>

lemma node_paths_head: "path \<in> set (node_paths e) \<Longrightarrow> path \<noteq> [] \<and> hd path = node_name e"
  by (cases e) auto

lemma siblings_prefix_free:
  assumes "distinct (map node_name cs)"
    and "\<And>c a b. c \<in> set cs \<Longrightarrow> a \<in> set (node_paths c) \<Longrightarrow> b \<in> set (node_paths c)
           \<Longrightarrow> \<not> strict_prefix a b"
    and "c1 \<in> set cs" "a \<in> set (node_paths c1)" "c2 \<in> set cs" "b \<in> set (node_paths c2)"
  shows "\<not> strict_prefix a b"
proof (cases "c1 = c2")
  case True
  with assms(2-) show ?thesis by blast
next
  case False
  have "inj_on node_name (set cs)"
    using assms(1) by (simp add: distinct_map)
  then have "node_name c1 \<noteq> node_name c2"
    using False assms(3,5) by (auto dest: inj_onD)
  moreover have "a \<noteq> []" "hd a = node_name c1" "b \<noteq> []" "hd b = node_name c2"
    using assms(4,6) node_paths_head by blast+
  ultimately show ?thesis
    by (cases a; cases b) (auto simp: strict_prefix_def)
qed

lemma node_prefix_free:
  assumes "wf_node e" "a \<in> set (node_paths e)" "b \<in> set (node_paths e)"
  shows "\<not> strict_prefix a b"
  using assms
proof (induction e arbitrary: a b)
  case (File filename st_size is_binary content)
  then show ?case by simp
next
  case (Dir dirname children)
  obtain c1 a' where a: "c1 \<in> set children" "a' \<in> set (node_paths c1)" "a = dirname # a'"
    using Dir.prems(2) by auto
  obtain c2 b' where b: "c2 \<in> set children" "b' \<in> set (node_paths c2)" "b = dirname # b'"
    using Dir.prems(3) by auto
  have wf: "\<And>c. c \<in> set children \<Longrightarrow> wf_node c"
    using Dir.prems(1) by (simp add: list_all_iff)
  have "\<not> strict_prefix a' b'"
  proof (rule siblings_prefix_free [of children _ a' _ b'])
    show "distinct (map node_name children)"
      using Dir.prems(1) by simp
    show "\<And>c a b. c \<in> set children \<Longrightarrow> a \<in> set (node_paths c) \<Longrightarrow> b \<in> set (node_paths c)
            \<Longrightarrow> \<not> strict_prefix a b"
      using Dir.IH wf by blast
  qed (use a b in auto)
  then show ?case
    using a(3) b(3) by (simp add: strict_prefix_def)
qed

lemma repo_prefix_free:
  assumes "well_formed repo"
    and "a \<in> (\<Union>e \<in> set repo. set (node_paths e))" "b \<in> (\<Union>e \<in> set repo. set (node_paths e))"
  shows "\<not> strict_prefix a b"
proof -
  obtain c1 where a: "c1 \<in> set repo" "a \<in> set (node_paths c1)"
    using assms(2) by auto
  obtain c2 where b: "c2 \<in> set repo" "b \<in> set (node_paths c2)"
    using assms(3) by auto
  have d: "distinct (map node_name repo)"
    using assms(1) by (simp add: well_formed_def)
  have each: "\<not> strict_prefix x y"
    if "c \<in> set repo" "x \<in> set (node_paths c)" "y \<in> set (node_paths c)" for c x y
  proof -
    have "wf_node c"
      using assms(1) that(1) by (simp add: well_formed_def list_all_iff)
    then show ?thesis
      using that(2,3) by (rule node_prefix_free)
  qed
  show ?thesis
    using d each a(1,2) b(1,2) by (rule siblings_prefix_free)
qed

lemma build_tree_succeeds:
  assumes "well_formed repo"
    and "set (map fst kept) \<subseteq> snd ` set (find_files repo inc exc sz md)"
  shows "\<exists>tree. build_tree_structure kept = Inr tree"
  unfolding build_tree_structure_def
proof (rule insert_paths_succeeds [where S = "\<Union>e \<in> set repo. set (node_paths e)"])
  show "\<forall>q. leaf_at [] q \<longrightarrow> q \<in> (\<Union>e \<in> set repo. set (node_paths e))"
    by simp
  show "\<forall>file_path \<in> set (map fst kept).
          split_sep CHR ''/'' file_path \<in> (\<Union>e \<in> set repo. set (node_paths e))"
  proof
    fix file_path
    assume "file_path \<in> set (map fst kept)"
    then have "file_path \<in> snd ` set (find_files repo inc exc sz md)"
      using assms(2) by blast
    then obtain f where "(f, file_path) \<in> set (find_files repo inc exc sz md)"
      by force
    then show "split_sep CHR ''/'' file_path \<in> (\<Union>e \<in> set repo. set (node_paths e))"
      by (rule find_files_paths [OF assms(1)])
  qed
  show "\<forall>a \<in> (\<Union>e \<in> set repo. set (node_paths e)).
          \<forall>b \<in> (\<Union>e \<in> set repo. set (node_paths e)). \<not> strict_prefix a b"
    by (intro ballI) (rule repo_prefix_free [OF assms(1)])
qed

section \<open>A filter that matches no language\<close>

lemma filter_files_keys: "set (map fst (filter_files cfg langs collected)) \<subseteq> set (map fst collected)"
  by (auto simp: filter_files_def)

text \<open>
  The repositories of this model are trees of files that can be listed and read.
  On such a tree, when it is well formed, building the tree of the result cannot
  fail, and \<open>ingest\<close> returns.
\<close>

lemma ingest_returns:
  assumes "well_formed repo"
  shows "\<exists>r. ingest env cfg handlers repo_path repo estimate wanted now = Inr r"
proof -
  let ?d = "detect_languages (LANGUAGE_HANDLERS env) cfg repo handlers"
  let ?langs = "filter_languages wanted (fst ?d)"
  let ?collected = "collect_files env cfg (snd ?d) repo (fst ?d)"
  let ?kept = "if filter_given wanted \<and> ?langs \<noteq> [] then filter_files cfg ?langs ?collected
               else ?collected"
  let ?found = "find_files repo (collect_include_patterns cfg (snd ?d) (fst ?d))
                  (collect_exclude_patterns cfg (snd ?d) (fst ?d))
                  (max_file_size_kb cfg) (max_depth cfg)"
  have "set (map fst ?collected) \<subseteq> snd ` set ?found"
    unfolding collect_files_keys by blast
  moreover have "set (map fst ?kept) \<subseteq> set (map fst ?collected)"
    using filter_files_keys [of cfg ?langs ?collected] by simp
  ultimately have "set (map fst ?kept) \<subseteq> snd ` set ?found"
    by blast
  then obtain tree where tree: "build_tree_structure ?kept = Inr tree"
    using build_tree_succeeds [OF assms] by blast
  show ?thesis
    unfolding ingest_def Let_def split_beta tree by (cases estimate) simp_all
qed

lemma filter_languages_unmatched:
  assumes "wanted \<noteq> []" and "\<forall>lang \<in> set all_languages. lower lang \<notin> set (map lower wanted)"
  shows "filter_languages (Some wanted) all_languages = []"
  using assms by (cases "all_languages = []") (auto simp: filter_languages_def filter_given_def)

lemma ingest_tree:
  assumes "ingest env cfg handlers repo_path repo estimate wanted now = Inr r"
  shows "build_tree_structure (files r) = Inr (tree_structure r)"
  using assms unfolding ingest_def Let_def split_beta
  by (cases estimate) (auto split: sum.splits)

lemma ingest_returns_with_tree:
  assumes "build_tree_structure
             (if filter_given wanted
                  \<and> filter_languages wanted (fst (detect_languages (LANGUAGE_HANDLERS env) cfg repo handlers)) \<noteq> []
              then filter_files cfg
                     (filter_languages wanted (fst (detect_languages (LANGUAGE_HANDLERS env) cfg repo handlers)))
                     (collect_files env cfg (snd (detect_languages (LANGUAGE_HANDLERS env) cfg repo handlers)) repo
                        (fst (detect_languages (LANGUAGE_HANDLERS env) cfg repo handlers)))
              else collect_files env cfg (snd (detect_languages (LANGUAGE_HANDLERS env) cfg repo handlers)) repo
                     (fst (detect_languages (LANGUAGE_HANDLERS env) cfg repo handlers))) = Inr tree"
  shows "\<exists>r. ingest env cfg handlers repo_path repo estimate wanted now = Inr r"
  unfolding ingest_def Let_def split_beta assms by (cases estimate) simp_all

text \<open>
  C6 (as amended). For every repository and every non-empty filter that matches,
  case-insensitively, none of the detected languages: the filter raises nothing,
  that is, \<open>ingest\<close> returns whenever the same call without a filter returns; the
  languages of the result are then empty; its files and its tree are those of the
  unfiltered result; the metadata holds the usual entries and nothing that tells of
  the unmatched filter; the one notice is the description given to the progress
  tracker, when the ingestor has one and some language was detected.
\<close>

theorem unmatched_filter:
  assumes "ingest env cfg handlers repo_path repo estimate None now = Inr unfiltered"
    and "detect_languages (LANGUAGE_HANDLERS env) cfg repo handlers = (all_languages, detected_handlers)"
    and "wanted \<noteq> []"
    and "\<forall>lang \<in> set all_languages. lower lang \<notin> set (map lower wanted)"
  shows "\<exists>r. ingest env cfg handlers repo_path repo estimate (Some wanted) now = Inr r
           \<and> languages r = []
           \<and> files r = files unfiltered
           \<and> tree_structure r = tree_structure unfiltered
           \<and> metadata r =
               (if estimate
                then [(''languages'', LanguageList []), (''file_count'', FileCount (length (files r)))]
                else [(''timestamp'', Timestamp now), (''languages'', LanguageList []),
                      (''file_count'', FileCount (length (files r))),
                      (''language_metadata'', LanguageMetadata [])])
           \<and> filter_progress_description has_progress (Some wanted) all_languages =
               (if has_progress \<and> all_languages \<noteq> []
                then Some ''No matching languages found with specified filter!''
                else None)"
proof -
  let ?collected = "collect_files env cfg detected_handlers repo all_languages"
  have none: "filter_languages (Some wanted) all_languages = []"
    using assms(3,4) by (rule filter_languages_unmatched)
  have fu: "files unfiltered = ?collected"
    using ingest_files [OF assms(1)] assms(2) by (simp add: filter_given_def)
  have tu: "build_tree_structure ?collected = Inr (tree_structure unfiltered)"
    using ingest_tree [OF assms(1)] fu by simp
  obtain r where r: "ingest env cfg handlers repo_path repo estimate (Some wanted) now = Inr r"
    using ingest_returns_with_tree [of "Some wanted" env cfg repo handlers "tree_structure unfiltered"
            repo_path estimate now] tu assms(2) none
    by auto
  have l: "languages r = []"
    using ingest_languages [OF r] assms(2) none by simp
  have f: "files r = files unfiltered"
    using ingest_files [OF r] assms(2) none fu by simp
  have t: "tree_structure r = tree_structure unfiltered"
    using ingest_tree [OF r] ingest_tree [OF assms(1)] f by simp
  have m: "metadata r =
               (if estimate
                then [(''languages'', LanguageList []), (''file_count'', FileCount (length (files r)))]
                else [(''timestamp'', Timestamp now), (''languages'', LanguageList []),
                      (''file_count'', FileCount (length (files r))),
                      (''language_metadata'', LanguageMetadata [])])"
    using ingest_metadata [OF r] l by (simp add: extract_metadata_def)
  have p: "filter_progress_description has_progress (Some wanted) all_languages =
               (if has_progress \<and> all_languages \<noteq> []
                then Some ''No matching languages found with specified filter!''
                else None)"
    using none assms(3) by (simp add: filter_progress_description_def filter_given_def)
  from r l f t m p show ?thesis by blast
qed

section \<open>The estimate-only run\<close>

lemma update_not_Nil: "AList.update k v al \<noteq> []"
  by (cases al) auto

lemma insert_path_not_Nil:
  assumes "insert_path parts tree = Inr tree'" and "parts \<noteq> [] \<or> tree \<noteq> []"
  shows "tree' \<noteq> []"
proof (cases parts)
  case Nil
  with assms show ?thesis by simp
next
  case (Cons part rest)
  show ?thesis
  proof (cases rest)
    case Nil
    with Cons assms(1) show ?thesis by (auto simp: update_not_Nil)
  next
    case (Cons v va)
    with \<open>parts = part # rest\<close> assms(1) show ?thesis
      by (auto simp: update_not_Nil split: option.splits tree_node.splits sum.splits)
  qed
qed

lemma insert_paths_not_Nil:
  assumes "insert_paths paths tree = Inr tree'" and "paths \<noteq> [] \<or> tree \<noteq> []"
  shows "tree' \<noteq> []"
  using assms
proof (induction paths arbitrary: tree)
  case Nil
  then show ?case by simp
next
  case (Cons file_path paths)
  from Cons.prems(1) obtain middle
    where m: "insert_path (split_sep CHR ''/'' file_path) tree = Inr middle"
      and rest: "insert_paths paths middle = Inr tree'"
    by (auto split: sum.splits)
  have "middle \<noteq> []"
    using m split_sep_not_Nil by (rule insert_path_not_Nil [OF _ disjI1])
  then show ?case
    using Cons.IH [OF rest] by simp
qed

text \<open>
  What an estimate-only run returns besides its files: a tree that is not empty
  when the files are not, no dependencies, no function analysis, and as token
  information whatever \<open>estimate_repository_tokens\<close> makes of the files, the
  languages and the tree.
\<close>

lemma estimate_only_shape:
  assumes "ingest env cfg handlers repo_path repo True wanted now = Inr r"
    and "files r \<noteq> []"
  shows "tree_structure r \<noteq> [] \<and> file_dependencies r = [] \<and> function_info r = []
         \<and> token_info r = estimate_repository_tokens env (files r)
                             [(''languages'', LanguageList (languages r))] (tree_structure r) []"
proof -
  have built: "build_tree_structure (files r) = Inr (tree_structure r)"
    and rest: "file_dependencies r = []" "function_info r = []"
      "token_info r = estimate_repository_tokens env (files r)
                        [(''languages'', LanguageList (languages r))] (tree_structure r) []"
    using assms(1) unfolding ingest_def Let_def split_beta by (auto split: sum.splits)
  have "tree_structure r \<noteq> []"
    using built assms(2) unfolding build_tree_structure_def
    by (intro insert_paths_not_Nil [of "map fst (files r)" "[]"]) simp_all
  with rest show ?thesis by simp
qed

section \<open>The orchestrator and the walker on concrete repositories\<close>

text \<open>
  C3 at a concrete repository: the caller supplies no language filter, Python is
  detected, the walker discovers \<open>docs/README.md\<close>, and the files of the result do
  not hold it. The test of line 104, which the comment above it words as "no
  languages filter specified", is made on the detected languages that \<open>ingest\<close>
  passes in line 324.
\<close>

theorem unfiltered_run_drops_discovered_file:
  "''docs/README.md'' \<in> snd ` set (find_files example_repo
       (collect_include_patterns example_config
          (snd (detect_languages (LANGUAGE_HANDLERS example_collaborators) example_config
                  example_repo Map.empty)) [''python''])
       (collect_exclude_patterns example_config
          (snd (detect_languages (LANGUAGE_HANDLERS example_collaborators) example_config
                  example_repo Map.empty)) [''python''])
       (max_file_size_kb example_config) (max_depth example_config))
   \<and> \<not> isl (ingest example_collaborators example_config Map.empty ''/repo'' example_repo False None 0)
   \<and> ''docs/README.md'' \<notin> set (map fst (files (projr
         (ingest example_collaborators example_config Map.empty ''/repo'' example_repo False None 0))))"
  by code_simp

theorem language_filter_monotone_witness:
  "\<not> isl (ingest example_collaborators example_config Map.empty ''/repo'' example_repo False
             (Some [''python'']) 0)
   \<and> \<not> isl (ingest example_collaborators example_config Map.empty ''/repo'' example_repo False None 0)
   \<and> set (map fst (files (projr (ingest example_collaborators example_config Map.empty ''/repo''
                                     example_repo False (Some [''python'']) 0))))
       \<subseteq> set (map fst (files (projr (ingest example_collaborators example_config Map.empty ''/repo''
                                     example_repo False None 0))))"
proof -
  let ?a = "ingest example_collaborators example_config Map.empty ''/repo'' example_repo False
              (Some [''python'']) 0"
  let ?b = "ingest example_collaborators example_config Map.empty ''/repo'' example_repo False None 0"
  have a: "\<not> isl ?a"
    by code_simp
  have b: "\<not> isl ?b"
    by code_simp
  obtain ra where ra: "?a = Inr ra"
    using a by (cases ?a) auto
  obtain rb where rb: "?b = Inr rb"
    using b by (cases ?b) auto
  show ?thesis
    using language_filter_monotone [OF ra rb] a b ra rb by simp
qed

text \<open>
  C7 as stated fails: the metadata of an estimate-only run has no timestamp and no
  per-language metadata.
\<close>

theorem metadata_contents_counterexample:
  "\<not> isl (ingest example_collaborators example_config Map.empty ''/repo'' example_repo True None 0)
   \<and> ''timestamp'' \<notin> set (map fst (metadata (projr
         (ingest example_collaborators example_config Map.empty ''/repo'' example_repo True None 0))))
   \<and> ''language_metadata'' \<notin> set (map fst (metadata (projr
         (ingest example_collaborators example_config Map.empty ''/repo'' example_repo True None 0))))"
  by code_simp

theorem metadata_contents_witness:
  "\<not> isl (ingest example_collaborators example_config Map.empty ''/repo'' example_repo False None 0)
   \<and> map fst (metadata (projr
         (ingest example_collaborators example_config Map.empty ''/repo'' example_repo False None 0)))
       = [''timestamp'', ''languages'', ''file_count'', ''language_metadata'']
   \<and> map_of (metadata (projr
         (ingest example_collaborators example_config Map.empty ''/repo'' example_repo False None 0)))
         ''timestamp'' = Some (Timestamp 0)"
proof -
  let ?a = "ingest example_collaborators example_config Map.empty ''/repo'' example_repo False None 0"
  have a: "\<not> isl ?a"
    by code_simp
  obtain ra where ra: "?a = Inr ra"
    using a by (cases ?a) auto
  show ?thesis
    using metadata_contents [OF ra] a ra by simp
qed

theorem core_files_kept_witness:
  "\<not> isl (ingest example_collaborators markdown_config Map.empty ''/repo'' nested_repo False
             (Some [''Python'']) 0)
   \<and> (''docs/nested/README.md'', ''# Docs'') \<in> set (files (projr
         (ingest example_collaborators markdown_config Map.empty ''/repo'' nested_repo False
            (Some [''Python'']) 0)))"
proof -
  let ?a = "ingest example_collaborators markdown_config Map.empty ''/repo'' nested_repo False
              (Some [''Python'']) 0"
  let ?d = "detect_languages (LANGUAGE_HANDLERS example_collaborators) markdown_config nested_repo Map.empty"
  have a: "\<not> isl ?a"
    by code_simp
  obtain ra where ra: "?a = Inr ra"
    using a by (cases ?a) auto
  have matched: "\<exists>lang \<in> set (fst ?d). lower lang \<in> set (map lower [''Python''])"
    by code_simp
  have collected: "(''docs/nested/README.md'', ''# Docs'')
                     \<in> set (collect_files example_collaborators markdown_config (snd ?d) nested_repo (fst ?d))"
    by code_simp
  have base: "basename ''docs/nested/README.md'' = ''README.md'' \<or> basename ''docs/nested/README.md'' = ''LICENSE''"
    by code_simp
  show ?thesis
    using core_files_kept [OF ra _ matched collected base] a ra by simp
qed

text \<open>
  C2 at a concrete repository: with the exclude pattern \<open>node_modules/\<close> the
  directory \<open>a/b/node_modules\<close> is not matched, so the walker enters it and \<open>c.js\<close>
  is returned; only the top-level \<open>node_modules\<close> is pruned.
\<close>

theorem nested_node_modules_collected:
  "\<not> matches_any_pattern ''a/b/node_modules'' {''node_modules/''}
   \<and> map snd (find_files
        [Dir ''node_modules'' [File ''top.js'' 10 False ''t''],
         Dir ''a'' [Dir ''b'' [Dir ''node_modules'' [File ''c.js'' 10 False ''c'']]]]
        {''*.js''} {''node_modules/''} 1024 None)
     = [''a/b/node_modules/c.js'']"
  by code_simp

text \<open>
  C6 as stated fails: where no language is detected, the result under the unmatched
  filter \<open>["rust"]\<close> is the result under no filter at all, so nothing in it tells
  of the filter; where Python is detected, the metadata holds its four usual
  entries and no other.
\<close>

theorem unmatched_filter_counterexample:
  "ingest example_collaborators example_config Map.empty ''/repo'' plain_repo False (Some [''rust'']) 0
     = ingest example_collaborators example_config Map.empty ''/repo'' plain_repo False None 0
   \<and> \<not> isl (ingest example_collaborators example_config Map.empty ''/repo'' example_repo False
               (Some [''rust'']) 0)
   \<and> metadata (projr (ingest example_collaborators example_config Map.empty ''/repo'' example_repo False
                         (Some [''rust'']) 0))
     = [(''timestamp'', Timestamp 0), (''languages'', LanguageList []),
        (''file_count'', FileCount 2), (''language_metadata'', LanguageMetadata [])]"
  by code_simp

theorem unmatched_filter_witness:
  "\<not> isl (ingest example_collaborators example_config Map.empty ''/repo'' example_repo False
            (Some [''rust'']) 0)
   \<and> languages (projr (ingest example_collaborators example_config Map.empty ''/repo'' example_repo
                          False (Some [''rust'']) 0)) = []
   \<and> map fst (metadata (projr (ingest example_collaborators example_config Map.empty ''/repo''
                                  example_repo False (Some [''rust'']) 0)))
       = [''timestamp'', ''languages'', ''file_count'', ''language_metadata'']"
proof -
  let ?d = "detect_languages (LANGUAGE_HANDLERS example_collaborators) example_config example_repo Map.empty"
  let ?u = "ingest example_collaborators example_config Map.empty ''/repo'' example_repo False None 0"
  have "\<not> isl ?u"
    by code_simp
  then obtain unfiltered where u: "?u = Inr unfiltered"
    by (cases ?u) auto
  have pair: "?d = (fst ?d, snd ?d)"
    by simp
  have wanted: "[''rust''] \<noteq> []"
    by simp
  have unmatched: "\<forall>lang \<in> set (fst ?d). lower lang \<notin> set (map lower [''rust''])"
    by code_simp
  obtain r where "ingest example_collaborators example_config Map.empty ''/repo'' example_repo False
                    (Some [''rust'']) 0 = Inr r"
    and "languages r = []"
    and "metadata r = (if False
                then [(''languages'', LanguageList []), (''file_count'', FileCount (length (files r)))]
                else [(''timestamp'', Timestamp 0), (''languages'', LanguageList []),
                      (''file_count'', FileCount (length (files r))),
                      (''language_metadata'', LanguageMetadata [])])"
    using unmatched_filter [OF u pair wanted unmatched, of True] by blast
  then show ?thesis by simp
qed

end
